theory Spec2Isabelle
  imports Main "HOL-Library.Word"
begin

unbundle bit_operations_syntax

section \<open>Machine integers and constants\<close>

text \<open>
  The read-ahead cache of \<^verbatim>\<open>media/libstagefright/NuCachedSource2.cpp\<close>. The C++ is
  modelled for an LP64 target: \<^verbatim>\<open>size_t\<close>, \<^verbatim>\<open>ssize_t\<close>, \<^verbatim>\<open>off64_t\<close> and
  \<^verbatim>\<open>int64_t\<close> are 64 bits wide (the widths of the spec's offsets and sizes),
  \<^verbatim>\<open>status_t\<close> and \<^verbatim>\<open>int32_t\<close> 32 bits. Arithmetic is
  word arithmetic (it wraps). Where C++ compares two signed operands the model uses the
  signed orders \<open><s\<close> and \<open>\<le>s\<close>; where one operand is a \<^verbatim>\<open>size_t\<close> the usual arithmetic
  conversions make the comparison unsigned (\<open><\<close>, \<open>\<le>\<close> on words).
\<close>

type_synonym byte = "8 word"
type_synonym size_t = "64 word"
type_synonym ssize_t = "64 word"
type_synonym off64_t = "64 word"
type_synonym int64_t = "64 word"
type_synonym int32_t = "32 word"
type_synonym status_t = "32 word"

text \<open>
  Modelled from the spec: the class declaration (\<^verbatim>\<open>include/NuCachedSource2.h\<close>) is not
  among the sources. The spec gives the page size (64 KiB), the retry budget (10) and
  the defaults of the two watermarks and of the keep-alive period (2 MiB, 20 MiB, 15 s).
\<close>

definition kPageSize :: size_t where
  "kPageSize = 65536"

definition kDefaultHighWaterThreshold :: size_t where
  "kDefaultHighWaterThreshold = 20 * 1024 * 1024"

definition kDefaultLowWaterThreshold :: size_t where
  "kDefaultLowWaterThreshold = 2 * 1024 * 1024"

definition kDefaultKeepAliveIntervalUs :: int64_t where
  "kDefaultKeepAliveIntervalUs = 15000000"

definition kMaxNumRetries :: int32_t where
  "kMaxNumRetries = 10"

text \<open>
  Modelled from the spec: the status codes (\<^verbatim>\<open>MediaErrors.h\<close>, \<^verbatim>\<open>utils/Errors.h\<close>,
  \<^verbatim>\<open>errno.h\<close>) and the flag bit of \<^verbatim>\<open>DataSource.h\<close> are not among the sources; the spec
  names them (Ok, Eof, unsupported, broken pipe, EAGAIN, "upstream is HTTP") without
  numbers. The values are those of the Android tree. The general theorems below do not
  depend on them; only the evaluations on example states unfold them.
\<close>

definition OK :: status_t where
  "OK = 0"

definition ERROR_UNSUPPORTED :: status_t where
  "ERROR_UNSUPPORTED = - 1010"

definition ERROR_END_OF_STREAM :: status_t where
  "ERROR_END_OF_STREAM = - 1011"

definition EAGAIN :: status_t where
  "EAGAIN = 11"

definition EPIPE :: status_t where
  "EPIPE = 32"

definition kIsHTTPBasedSource :: "32 word" where
  "kIsHTTPBasedSource = 8"

text \<open>
  A failed \<^verbatim>\<open>CHECK\<close> aborts the process (\<open>Abort\<close>); dereferencing the end iterator of
  a page list or reading past a page's buffer is undefined behaviour (\<open>Fault\<close>).
\<close>

datatype error = Abort | Fault

section \<open>PageCache\<close>

record Page =
  mData :: "byte list"
  mSize :: size_t

record PageCache =
  mPageSize :: size_t
  mTotalSize :: size_t
  mActivePages :: "Page list"
  mFreePages :: "Page list"

definition PageCache_new :: "size_t \<Rightarrow> PageCache" where
  "PageCache_new pageSize =
     \<lparr>mPageSize = pageSize, mTotalSize = 0, mActivePages = [], mFreePages = []\<rparr>"

definition totalSize :: "PageCache \<Rightarrow> size_t" where
  "totalSize c = mTotalSize c"

text \<open>
  \<^verbatim>\<open>acquirePage\<close>: the first free page if there is one, else a fresh page whose buffer
  has \<open>mPageSize\<close> bytes. \<^verbatim>\<open>malloc\<close> leaves the buffer's contents unspecified; the model
  fills it with zeros, and nothing below reads a byte that was not written.
\<close>

definition acquirePage :: "PageCache \<Rightarrow> Page \<times> PageCache" where
  "acquirePage c =
     (case mFreePages c of
        p # ps \<Rightarrow> (p, c\<lparr>mFreePages := ps\<rparr>)
      | [] \<Rightarrow> (\<lparr>mData = replicate (unat (mPageSize c)) 0, mSize = 0\<rparr>, c))"

definition releasePage :: "Page \<Rightarrow> PageCache \<Rightarrow> PageCache" where
  "releasePage page c = c\<lparr>mFreePages := mFreePages c @ [page\<lparr>mSize := 0\<rparr>]\<rparr>"

definition appendPage :: "Page \<Rightarrow> PageCache \<Rightarrow> PageCache" where
  "appendPage page c =
     c\<lparr>mTotalSize := mTotalSize c + mSize page,
       mActivePages := mActivePages c @ [page]\<rparr>"

text \<open>
  The loop of \<^verbatim>\<open>releaseFromStart\<close>, on the budget left, the bytes released so far, the
  active list and the free list; it returns the last three.
\<close>

fun release_loop ::
  "size_t \<Rightarrow> size_t \<Rightarrow> Page list \<Rightarrow> Page list \<Rightarrow> size_t \<times> Page list \<times> Page list" where
  "release_loop maxBytes bytesReleased [] free = (bytesReleased, [], free)"
| "release_loop maxBytes bytesReleased (page # rest) free =
     (if 0 < maxBytes then
        (if maxBytes < mSize page then (bytesReleased, page # rest, free)
         else release_loop (maxBytes - mSize page) (bytesReleased + mSize page) rest
                (free @ [page\<lparr>mSize := 0\<rparr>]))
      else (bytesReleased, page # rest, free))"

definition releaseFromStart :: "size_t \<Rightarrow> PageCache \<Rightarrow> size_t \<times> PageCache" where
  "releaseFromStart maxBytes c =
     (case release_loop maxBytes 0 (mActivePages c) (mFreePages c) of
        (bytesReleased, active, free) \<Rightarrow>
          (bytesReleased,
           c\<lparr>mTotalSize := mTotalSize c - bytesReleased,
             mActivePages := active, mFreePages := free\<rparr>))"

text \<open>\<^verbatim>\<open>memcpy\<close> of \<open>n\<close> bytes out of a page's buffer, starting at \<open>delta\<close>.\<close>

definition memcpy_from :: "Page \<Rightarrow> size_t \<Rightarrow> size_t \<Rightarrow> error + byte list" where
  "memcpy_from page delta n =
     (if unat delta + unat n \<le> length (mData page)
      then Inr (take (unat n) (drop (unat delta) (mData page)))
      else Inl Fault)"

text \<open>
  The first loop of \<^verbatim>\<open>copy\<close> walks to the page that holds logical offset \<open>frm\<close>; it
  returns the offset of that page, the page and the pages after it.
\<close>

fun copy_skip :: "size_t \<Rightarrow> size_t \<Rightarrow> Page list \<Rightarrow> error + (size_t \<times> Page \<times> Page list)" where
  "copy_skip frm offset [] = Inl Fault"
| "copy_skip frm offset (page # rest) =
     (if offset + mSize page \<le> frm then copy_skip frm (offset + mSize page) rest
      else Inr (offset, page, rest))"

text \<open>The second loop of \<^verbatim>\<open>copy\<close>: whole pages, and a prefix of the last one.\<close>

fun copy_rest :: "size_t \<Rightarrow> Page list \<Rightarrow> error + byte list" where
  "copy_rest sz [] = (if 0 < sz then Inl Fault else Inr [])"
| "copy_rest sz (page # rest) =
     (if 0 < sz then
        (let n = (if sz < mSize page then sz else mSize page) in
         case memcpy_from page 0 n of
           Inl e \<Rightarrow> Inl e
         | Inr bs \<Rightarrow>
             (case copy_rest (sz - n) rest of
                Inl e \<Rightarrow> Inl e
              | Inr cs \<Rightarrow> Inr (bs @ cs)))
      else Inr [])"

text \<open>
  \<^verbatim>\<open>copy(from, data, size)\<close>; the result is what the call writes to
  \<^verbatim>\<open>data[0 .. size)\<close>.
\<close>

definition copy :: "size_t \<Rightarrow> size_t \<Rightarrow> PageCache \<Rightarrow> error + byte list" where
  "copy frm sz c =
     (if sz = 0 then Inr []
      else if \<not> frm + sz \<le> mTotalSize c then Inl Abort
      else
        (case copy_skip frm 0 (mActivePages c) of
           Inl e \<Rightarrow> Inl e
         | Inr (offset, page, rest) \<Rightarrow>
             (let delta = frm - offset; avail = mSize page - delta in
              if sz \<le> avail then memcpy_from page delta sz
              else
                (case memcpy_from page delta avail of
                   Inl e \<Rightarrow> Inl e
                 | Inr bs \<Rightarrow>
                     (case copy_rest (sz - avail) rest of
                        Inl e \<Rightarrow> Inl e
                      | Inr cs \<Rightarrow> Inr (bs @ cs))))))"

section \<open>The engine\<close>

record NuCachedSource2 =
  mCache :: PageCache
  mCacheOffset :: off64_t
  mFinalStatus :: status_t
  mLastAccessPos :: off64_t
  mFetching :: bool
  mDisconnecting :: bool
  mLastFetchTimeUs :: int64_t
  mNumRetriesLeft :: int32_t
  mHighwaterThresholdBytes :: size_t
  mLowwaterThresholdBytes :: size_t
  mKeepAliveIntervalUs :: int64_t
  mDisconnectAtHighwatermark :: bool
  mIsProxyConfigured :: bool
  mQueryAndSetProxy :: bool
  mSuspended :: bool
  mAsyncResult :: "int32_t option"

text \<open>
  \<^verbatim>\<open>seekInternal_l\<close>. Both comparisons are between \<^verbatim>\<open>off64_t\<close> values, hence signed.
  The \<^verbatim>\<open>CHECK_EQ\<close> aborts when the cache could not release all its bytes.
\<close>

definition seekInternal_l :: "off64_t \<Rightarrow> NuCachedSource2 \<Rightarrow> error + NuCachedSource2" where
  "seekInternal_l offset s =
     (let s1 = s\<lparr>mLastAccessPos := offset\<rparr> in
      if mCacheOffset s1 \<le>s offset
         \<and> offset \<le>s mCacheOffset s1 + totalSize (mCache s1)
      then Inr s1
      else
        (let s2 = s1\<lparr>mCacheOffset := offset\<rparr>;
             total = totalSize (mCache s2) in
         case releaseFromStart total (mCache s2) of
           (released, c) \<Rightarrow>
             if released = total
             then Inr (s2\<lparr>mCache := c, mNumRetriesLeft := kMaxNumRetries, mFetching := True\<rparr>)
             else Inl Abort))"

text \<open>
  \<^verbatim>\<open>restartPrefetcherIfNecessary_l\<close>. \<open>mCacheOffset + totalSize - mLastAccessPos\<close> has a
  \<^verbatim>\<open>size_t\<close> operand, so it is computed and compared unsigned; \<open>maxBytes\<close> is the
  \<^verbatim>\<open>off64_t\<close> difference converted to \<^verbatim>\<open>size_t\<close>.
\<close>

definition kGrayArea :: size_t where
  "kGrayArea = 1024 * 1024"

definition restartPrefetcherIfNecessary_l ::
  "bool \<Rightarrow> bool \<Rightarrow> NuCachedSource2 \<Rightarrow> NuCachedSource2" where
  "restartPrefetcherIfNecessary_l ignoreLowWaterThreshold force s =
     (if mFetching s \<or> (mFinalStatus s \<noteq> OK \<and> mNumRetriesLeft s = 0) then s
      else if \<not> ignoreLowWaterThreshold \<and> \<not> force
              \<and> mLowwaterThresholdBytes s
                   \<le> mCacheOffset s + totalSize (mCache s) - mLastAccessPos s
      then s
      else
        (let maxBytes = mLastAccessPos s - mCacheOffset s in
         if \<not> force \<and> maxBytes < kGrayArea then s
         else
           (let maxBytes' = (if force then maxBytes else maxBytes - kGrayArea) in
            case releaseFromStart maxBytes' (mCache s) of
              (actualBytes, c) \<Rightarrow>
                s\<lparr>mCache := c,
                  mCacheOffset := mCacheOffset s + actualBytes,
                  mFetching := True\<rparr>)))"

definition resumeFetchingIfNecessary :: "NuCachedSource2 \<Rightarrow> NuCachedSource2" where
  "resumeFetchingIfNecessary s = restartPrefetcherIfNecessary_l True False s"

text \<open>
  What a call does to its collaborators: a signal on \<^verbatim>\<open>mCondition\<close>, a call of the
  upstream's \<^verbatim>\<open>disconnect()\<close>, a message posted to the looper (with its delay in
  microseconds).
\<close>

datatype event =
    Signal
  | SourceDisconnect
  | PostFetchMore int64_t
  | PostRead off64_t size_t int64_t

text \<open>
  The upstream source as one call sees it: its flags, what \<^verbatim>\<open>readAt(offset, buf, size)\<close>
  returns and writes to the buffer, and what \<^verbatim>\<open>reconnectAtOffset(offset, &flag)\<close>
  returns and leaves in the flag.
\<close>

record DataSource =
  src_flags :: "32 word"
  src_readAt :: "off64_t \<Rightarrow> size_t \<Rightarrow> ssize_t \<times> byte list"
  src_reconnectAtOffset :: "off64_t \<Rightarrow> bool \<Rightarrow> status_t \<times> bool"

definition disconnect :: "DataSource \<Rightarrow> NuCachedSource2 \<Rightarrow> NuCachedSource2 \<times> event list" where
  "disconnect src s =
     (if src_flags src AND kIsHTTPBasedSource \<noteq> 0
      then (s\<lparr>mDisconnecting := True\<rparr>, [Signal, SourceDisconnect])
      else (s, []))"

text \<open>
  \<^verbatim>\<open>readAt\<close> up to its wait on \<^verbatim>\<open>mCondition\<close>. The result \<open>None\<close> says that the caller
  has posted the read and now waits; otherwise the call has returned the value, with
  the bytes it wrote to \<^verbatim>\<open>data\<close>. In \<open>offset + size \<le> mCacheOffset + totalSize\<close> both
  sides have a \<^verbatim>\<open>size_t\<close> operand: the comparison is unsigned.
\<close>

definition readAt ::
  "off64_t \<Rightarrow> size_t \<Rightarrow> NuCachedSource2
     \<Rightarrow> error + (ssize_t option \<times> byte list \<times> NuCachedSource2 \<times> event list)" where
  "readAt offset sz s =
     (if mDisconnecting s then Inr (Some (scast ERROR_END_OF_STREAM), [], s, [])
      else if mCacheOffset s \<le>s offset
              \<and> offset + sz \<le> mCacheOffset s + totalSize (mCache s)
      then
        (let delta = offset - mCacheOffset s in
         case copy delta sz (mCache s) of
           Inl e \<Rightarrow> Inl e
         | Inr bs \<Rightarrow> Inr (Some sz, bs, s\<lparr>mLastAccessPos := offset + sz\<rparr>, []))
      else if mAsyncResult s \<noteq> None then Inl Abort
      else Inr (None, [], s, [PostRead offset sz 0]))"

text \<open>
  \<^verbatim>\<open>readAt\<close> from a wake-up of its wait: \<open>None\<close> when the loop waits again, else the
  value returned and the state left.
\<close>

definition readAt_wake :: "off64_t \<Rightarrow> NuCachedSource2 \<Rightarrow> (ssize_t \<times> NuCachedSource2) option" where
  "readAt_wake offset s =
     (case (mAsyncResult s, mDisconnecting s) of
        (None, False) \<Rightarrow> None
      | (_, True) \<Rightarrow> Some (scast ERROR_END_OF_STREAM, s\<lparr>mAsyncResult := None\<rparr>)
      | (Some result, False) \<Rightarrow>
          (let s1 = s\<lparr>mAsyncResult := None\<rparr> in
           Some (scast result,
                 if 0 <s result then s1\<lparr>mLastAccessPos := offset + scast result\<rparr> else s1)))"

definition cachedSize :: "NuCachedSource2 \<Rightarrow> size_t" where
  "cachedSize s = mCacheOffset s + totalSize (mCache s)"

text \<open>\<^verbatim>\<open>approxDataRemaining_l\<close>: the value returned and the status written.\<close>

definition approxDataRemaining_l :: "NuCachedSource2 \<Rightarrow> size_t \<times> status_t" where
  "approxDataRemaining_l s =
     (let finalStatus =
            (if mFinalStatus s \<noteq> OK \<and> 0 <s mNumRetriesLeft s then OK else mFinalStatus s);
          lastBytePosCached = mCacheOffset s + totalSize (mCache s)
      in if mLastAccessPos s <s lastBytePosCached
         then (lastBytePosCached - mLastAccessPos s, finalStatus)
         else (0, finalStatus))"

definition kPadding :: off64_t where
  "kPadding = 256 * 1024"

text \<open>
  \<^verbatim>\<open>readInternal\<close>: the value returned, the bytes written to \<^verbatim>\<open>data\<close> and the state
  left. The window test compares \<^verbatim>\<open>off64_t\<close> values (signed); the last test has
  \<^verbatim>\<open>size_t\<close> operands (unsigned).
\<close>

definition readInternal ::
  "off64_t \<Rightarrow> size_t \<Rightarrow> NuCachedSource2 \<Rightarrow> error + (ssize_t \<times> byte list \<times> NuCachedSource2)" where
  "readInternal offset sz s =
     (if \<not> sz \<le> mHighwaterThresholdBytes s then Inl Abort
      else
        (let s1 = (if \<not> mFetching s
                   then restartPrefetcherIfNecessary_l False True (s\<lparr>mLastAccessPos := offset\<rparr>)
                   else s)
         in case (if offset <s mCacheOffset s1
                     \<or> mCacheOffset s1 + totalSize (mCache s1) \<le>s offset
                  then seekInternal_l (if kPadding <s offset then offset - kPadding else 0) s1
                  else Inr s1) of
              Inl e \<Rightarrow> Inl e
            | Inr s2 \<Rightarrow>
                (let delta = offset - mCacheOffset s2 in
                 if mFinalStatus s2 \<noteq> OK \<and> mNumRetriesLeft s2 = 0 then
                   (if totalSize (mCache s2) \<le> delta then Inr (scast (mFinalStatus s2), [], s2)
                    else
                      (let avail0 = totalSize (mCache s2) - delta;
                           avail = (if sz < avail0 then sz else avail0) in
                       case copy delta avail (mCache s2) of
                         Inl e \<Rightarrow> Inl e
                       | Inr bs \<Rightarrow> Inr (avail, bs, s2)))
                 else if offset + sz \<le> mCacheOffset s2 + totalSize (mCache s2) then
                   (case copy delta sz (mCache s2) of
                      Inl e \<Rightarrow> Inl e
                    | Inr bs \<Rightarrow> Inr (sz, bs, s2))
                 else Inr (scast (- EAGAIN), [], s2))))"

section \<open>The prefetcher\<close>

text \<open>
  What the upstream's \<^verbatim>\<open>readAt\<close> leaves in the page's buffer: the bytes it wrote, over
  the old contents; the buffer keeps its length.
\<close>

definition write_buf :: "byte list \<Rightarrow> byte list \<Rightarrow> byte list" where
  "write_buf bs buf = take (length buf) bs @ drop (length bs) buf"

text \<open>
  \<^verbatim>\<open>fetchInternal\<close> from \<^verbatim>\<open>acquirePage\<close> on: one read of at most \<open>kPageSize\<close> bytes at
  the end of the window, and its three outcomes. Storing \<open>n\<close> in \<open>mFinalStatus\<close> keeps
  its low 32 bits; comparing \<open>n\<close> with a status code widens the code with its sign. The
  model runs a call as one step, so \<open>mDisconnecting\<close> is the value the call started
  with.
\<close>

definition fetch_page :: "DataSource \<Rightarrow> NuCachedSource2 \<Rightarrow> NuCachedSource2" where
  "fetch_page src s =
     (case acquirePage (mCache s) of
        (page0, c) \<Rightarrow>
          (case src_readAt src (mCacheOffset s + totalSize c) kPageSize of
             (n, bytes) \<Rightarrow>
               (let page = page0\<lparr>mData := write_buf bytes (mData page0)\<rparr> in
                if n = 0 \<or> mDisconnecting s then
                  s\<lparr>mNumRetriesLeft := 0, mFinalStatus := ERROR_END_OF_STREAM,
                    mCache := releasePage page c\<rparr>
                else if n <s 0 then
                  (let s1 = s\<lparr>mFinalStatus := ucast n\<rparr>;
                       s2 = (if n = scast ERROR_UNSUPPORTED \<or> n = scast (- EPIPE)
                             then s1\<lparr>mNumRetriesLeft := 0\<rparr> else s1)
                   in s2\<lparr>mCache := releasePage page c\<rparr>)
                else
                  s\<lparr>mNumRetriesLeft := kMaxNumRetries, mFinalStatus := OK,
                    mCache := appendPage (page\<lparr>mSize := n\<rparr>) c\<rparr>)))"

definition fetchInternal :: "DataSource \<Rightarrow> NuCachedSource2 \<Rightarrow> error + NuCachedSource2" where
  "fetchInternal src s =
     (if \<not> (mFinalStatus s = OK \<or> 0 <s mNumRetriesLeft s) then Inl Abort
      else
        (let reconnect = (mFinalStatus s \<noteq> OK);
             s1 = (if reconnect then s\<lparr>mNumRetriesLeft := mNumRetriesLeft s - 1\<rparr> else s)
         in if reconnect \<and> \<not> mSuspended s1 then
              (case src_reconnectAtOffset src (mCacheOffset s1 + totalSize (mCache s1))
                      (mQueryAndSetProxy s1) of
                 (err, q) \<Rightarrow>
                   (let s2 = s1\<lparr>mQueryAndSetProxy := q\<rparr>;
                        s3 = (if mIsProxyConfigured s2 \<and> \<not> mQueryAndSetProxy s2
                                 \<and> mDisconnectAtHighwatermark s2
                              then s2\<lparr>mKeepAliveIntervalUs := 0\<rparr> else s2);
                        s4 = s3\<lparr>mIsProxyConfigured := mQueryAndSetProxy s3\<rparr>
                    in if mDisconnecting s4 then
                         Inr (s4\<lparr>mNumRetriesLeft := 0, mFinalStatus := ERROR_END_OF_STREAM\<rparr>)
                       else if err = ERROR_UNSUPPORTED \<or> err = - EPIPE then
                         Inr (s4\<lparr>mNumRetriesLeft := 0\<rparr>)
                       else if err \<noteq> OK then Inr s4
                       else Inr (fetch_page src s4)))
            else Inr (fetch_page src s1)))"

text \<open>
  \<^verbatim>\<open>onFetch\<close>, one activation of the prefetcher. \<open>now1\<close> and \<open>now2\<close> are the two readings
  of \<^verbatim>\<open>ALooper::GetNowUs()\<close>. The call of \<^verbatim>\<open>restartPrefetcherIfNecessary_l()\<close> passes no
  argument; the spec gives its defaults as \<open>ignore_low = false\<close>, \<open>force = false\<close>.
\<close>

definition onFetch ::
  "DataSource \<Rightarrow> int64_t \<Rightarrow> int64_t \<Rightarrow> NuCachedSource2
     \<Rightarrow> error + (NuCachedSource2 \<times> event list)" where
  "onFetch src now1 now2 s =
     (let s1 = (if mFinalStatus s \<noteq> OK \<and> mNumRetriesLeft s = 0
                then s\<lparr>mFetching := False\<rparr> else s);
          s2 = (if (mFinalStatus s1 \<noteq> OK \<and> 0 <s mNumRetriesLeft s1) \<and> mIsProxyConfigured s1
                then s1\<lparr>mQueryAndSetProxy := True\<rparr> else s1);
          keepAlive = (\<not> mFetching s2 \<and> mFinalStatus s2 = OK
                       \<and> 0 <s mKeepAliveIntervalUs s2
                       \<and> mLastFetchTimeUs s2 + mKeepAliveIntervalUs s2 \<le>s now1)
      in case (if mFetching s2 \<or> keepAlive then
                 (case fetchInternal src s2 of
                    Inl e \<Rightarrow> Inl e
                  | Inr s3 \<Rightarrow>
                      (let s4 = s3\<lparr>mLastFetchTimeUs := now2\<rparr> in
                       if mFetching s4 \<and> mHighwaterThresholdBytes s4 \<le> totalSize (mCache s4)
                       then
                         (let s5 = s4\<lparr>mFetching := False\<rparr> in
                          if mDisconnectAtHighwatermark s5
                             \<and> src_flags src AND kIsHTTPBasedSource \<noteq> 0
                             \<and> \<not> mIsProxyConfigured s5
                          then Inr (s5\<lparr>mFinalStatus := - EAGAIN\<rparr>, [SourceDisconnect])
                          else Inr (s5, []))
                       else Inr (s4, [])))
               else Inr (restartPrefetcherIfNecessary_l False False s2, [])) of
           Inl e \<Rightarrow> Inl e
         | Inr (s6, evs) \<Rightarrow>
             (let delayUs = (if mFetching s6
                             then (if mFinalStatus s6 \<noteq> OK \<and> 0 <s mNumRetriesLeft s6
                                   then 3000000 else 0)
                             else 100000)
              in if mSuspended s6
                 then Inr (s6\<lparr>mFinalStatus := - EAGAIN\<rparr>, evs @ [SourceDisconnect])
                 else Inr (s6, evs @ [PostFetchMore delayUs])))"

section \<open>Configuration\<close>

text \<open>
  \<^verbatim>\<open>sscanf(s, "%zd/%zd/%d", ...)\<close> of the C library: each conversion skips white space,
  takes an optional sign and then at least one decimal digit; the \<open>/\<close> between them
  must be the next character. The result is the number of conversions done (0 also
  where the C function returns \<^verbatim>\<open>EOF\<close>: the caller only compares it with 3) and the
  three values, which stay 0 where no conversion wrote them. The C standard leaves
  a value outside the range of its type undefined; the C library converts the digits as
  \<^verbatim>\<open>strtol\<close> does, so a value outside the range of \<^verbatim>\<open>long\<close> becomes \<^verbatim>\<open>LONG_MIN\<close> or
  \<^verbatim>\<open>LONG_MAX\<close>. \<^verbatim>\<open>%zd\<close> stores this \<^verbatim>\<open>long\<close>; \<^verbatim>\<open>%d\<close> stores it converted to
  \<^verbatim>\<open>int\<close>, that is its low 32 bits.
\<close>

definition LONG_MIN :: int where
  "LONG_MIN = - (2 ^ 63)"

definition LONG_MAX :: int where
  "LONG_MAX = 2 ^ 63 - 1"

definition strtol_range :: "int \<Rightarrow> int" where
  "strtol_range v = (if v < LONG_MIN then LONG_MIN else if LONG_MAX < v then LONG_MAX else v)"

definition store_zd :: "int \<Rightarrow> ssize_t" where
  "store_zd v = word_of_int (strtol_range v)"

definition store_d :: "int \<Rightarrow> int32_t" where
  "store_d v = word_of_int (strtol_range v)"

definition isspace :: "char \<Rightarrow> bool" where
  "isspace c = ((of_char c :: nat) = 32 \<or> (9 \<le> (of_char c :: nat) \<and> (of_char c :: nat) \<le> 13))"

definition isdigit :: "char \<Rightarrow> bool" where
  "isdigit c = (48 \<le> (of_char c :: nat) \<and> (of_char c :: nat) \<le> 57)"

fun scan_digits :: "int \<Rightarrow> string \<Rightarrow> int \<times> string" where
  "scan_digits acc [] = (acc, [])"
| "scan_digits acc (c # cs) =
     (if isdigit c then scan_digits (acc * 10 + (int (of_char c) - 48)) cs
      else (acc, c # cs))"

definition scan_sign :: "string \<Rightarrow> bool \<times> string" where
  "scan_sign cs =
     (case cs of
        [] \<Rightarrow> (False, [])
      | c # rest \<Rightarrow>
          if c = CHR ''-'' then (True, rest)
          else if c = CHR ''+'' then (False, rest)
          else (False, cs))"

definition scan_int :: "string \<Rightarrow> (int \<times> string) option" where
  "scan_int cs =
     (case scan_sign (dropWhile isspace cs) of
        (neg, ds) \<Rightarrow>
          (case ds of
             [] \<Rightarrow> None
           | d # _ \<Rightarrow>
               if isdigit d
               then (case scan_digits 0 ds of
                       (v, rest) \<Rightarrow> Some (if neg then - v else v, rest))
               else None))"

definition scan_slash :: "string \<Rightarrow> string option" where
  "scan_slash cs = (case cs of [] \<Rightarrow> None | c # rest \<Rightarrow> if c = CHR ''/'' then Some rest else None)"

definition sscanf_zd_zd_d :: "string \<Rightarrow> nat \<times> ssize_t \<times> ssize_t \<times> int32_t" where
  "sscanf_zd_zd_d str =
     (case scan_int str of
        None \<Rightarrow> (0, 0, 0, 0)
      | Some (a, r1) \<Rightarrow>
          (case scan_slash r1 of
             None \<Rightarrow> (1, store_zd a, 0, 0)
           | Some r2 \<Rightarrow>
               (case scan_int r2 of
                  None \<Rightarrow> (1, store_zd a, 0, 0)
                | Some (b, r3) \<Rightarrow>
                    (case scan_slash r3 of
                       None \<Rightarrow> (2, store_zd a, store_zd b, 0)
                     | Some r4 \<Rightarrow>
                         (case scan_int r4 of
                            None \<Rightarrow> (2, store_zd a, store_zd b, 0)
                          | Some (k, _) \<Rightarrow>
                              (3, store_zd a, store_zd b, store_d k))))))"

text \<open>
  \<^verbatim>\<open>updateCacheParamsFromString\<close>. The products \<^verbatim>\<open>lowwaterMarkKb * 1024\<close> and
  \<^verbatim>\<open>highwaterMarkKb * 1024\<close> are computed in \<^verbatim>\<open>ssize_t\<close> and stored in a \<^verbatim>\<open>size_t\<close>: the
  stored value is the product modulo \<open>2^64\<close>. The comparison of the two thresholds is
  unsigned. \<^verbatim>\<open>keepAliveSecs * 1000000ll\<close> is computed in 64 bits, where it cannot
  overflow.
\<close>

definition updateCacheParamsFromString :: "string \<Rightarrow> NuCachedSource2 \<Rightarrow> NuCachedSource2" where
  "updateCacheParamsFromString str s =
     (case sscanf_zd_zd_d str of
        (n, lowwaterMarkKb, highwaterMarkKb, keepAliveSecs) \<Rightarrow>
          if n \<noteq> 3 then s
          else
            (let s1 = s\<lparr>mLowwaterThresholdBytes :=
                         (if 0 \<le>s lowwaterMarkKb then lowwaterMarkKb * 1024
                          else kDefaultLowWaterThreshold)\<rparr>;
                 s2 = s1\<lparr>mHighwaterThresholdBytes :=
                          (if 0 \<le>s highwaterMarkKb then highwaterMarkKb * 1024
                           else kDefaultHighWaterThreshold)\<rparr>;
                 s3 = (if mHighwaterThresholdBytes s2 \<le> mLowwaterThresholdBytes s2
                       then s2\<lparr>mLowwaterThresholdBytes := kDefaultLowWaterThreshold,
                                mHighwaterThresholdBytes := kDefaultHighWaterThreshold\<rparr>
                       else s2)
             in s3\<lparr>mKeepAliveIntervalUs :=
                     (if 0 \<le>s keepAliveSecs then scast keepAliveSecs * 1000000
                      else kDefaultKeepAliveIntervalUs)\<rparr>))"

text \<open>
  \<^verbatim>\<open>updateCacheParamsFromSystemProperty\<close>, given the values of the two properties
  (\<^verbatim>\<open>property_get\<close> returns the length of the value, 0 when it is not set).
\<close>

definition updateCacheParamsFromSystemProperty ::
  "string option \<Rightarrow> string option \<Rightarrow> NuCachedSource2 \<Rightarrow> NuCachedSource2" where
  "updateCacheParamsFromSystemProperty persistProp stagefrightProp s =
     (case persistProp of
        Some (c # cs) \<Rightarrow> updateCacheParamsFromString (c # cs) s
      | _ \<Rightarrow>
          (case stagefrightProp of
             Some (c # cs) \<Rightarrow> updateCacheParamsFromString (c # cs) s
           | _ \<Rightarrow> s))"

text \<open>The constructor: the member initialisers, then the configuration.\<close>

definition NuCachedSource2_new ::
  "string option \<Rightarrow> string option \<Rightarrow> string option \<Rightarrow> bool \<Rightarrow> bool
     \<Rightarrow> NuCachedSource2 \<times> event list" where
  "NuCachedSource2_new persistProp stagefrightProp cacheConfig disconnectAtHighwatermark
       isProxyConfigured =
     (let s0 = \<lparr>mCache = PageCache_new kPageSize,
                mCacheOffset = 0,
                mFinalStatus = OK,
                mLastAccessPos = 0,
                mFetching = True,
                mDisconnecting = False,
                mLastFetchTimeUs = - 1,
                mNumRetriesLeft = kMaxNumRetries,
                mHighwaterThresholdBytes = kDefaultHighWaterThreshold,
                mLowwaterThresholdBytes = kDefaultLowWaterThreshold,
                mKeepAliveIntervalUs = kDefaultKeepAliveIntervalUs,
                mDisconnectAtHighwatermark = disconnectAtHighwatermark,
                mIsProxyConfigured = isProxyConfigured,
                mQueryAndSetProxy = False,
                mSuspended = False,
                mAsyncResult = None\<rparr>;
          s1 = updateCacheParamsFromSystemProperty persistProp stagefrightProp s0;
          s2 = (case cacheConfig of
                  None \<Rightarrow> s1
                | Some str \<Rightarrow> updateCacheParamsFromString str s1);
          s3 = (if mDisconnectAtHighwatermark s2 \<and> \<not> mIsProxyConfigured s2
                then s2\<lparr>mKeepAliveIntervalUs := 0\<rparr> else s2)
      in (s3, [PostFetchMore 0]))"

section \<open>Well-formed states\<close>

text \<open>
  The bytes a page holds are the first \<open>mSize\<close> bytes of its buffer; the bytes the cache
  holds are those of its active pages, in order. A cache is well formed when \<open>mTotalSize\<close>
  is the sum of the sizes of the active pages and no page claims more bytes than its
  buffer has.
\<close>

definition sum_sizes :: "Page list \<Rightarrow> nat" where
  "sum_sizes ps = sum_list (map (\<lambda>p. unat (mSize p)) ps)"

definition page_bytes :: "Page \<Rightarrow> byte list" where
  "page_bytes p = take (unat (mSize p)) (mData p)"

definition pages_bytes :: "Page list \<Rightarrow> byte list" where
  "pages_bytes ps = concat (map page_bytes ps)"

definition pages_ok :: "Page list \<Rightarrow> bool" where
  "pages_ok ps = list_all (\<lambda>p. unat (mSize p) \<le> length (mData p)) ps"

definition cache_wf :: "PageCache \<Rightarrow> bool" where
  "cache_wf c =
     (unat (mTotalSize c) = sum_sizes (mActivePages c) \<and> pages_ok (mActivePages c))"

definition cached_bytes :: "NuCachedSource2 \<Rightarrow> byte list" where
  "cached_bytes s = pages_bytes (mActivePages (mCache s))"

text \<open>
  The window \<open>[mCacheOffset, mCacheOffset + totalSize)\<close> lies in the non-negative
  \<^verbatim>\<open>off64_t\<close> values: offsets are positions in a stream, and the end of the window does
  not overflow.
\<close>

definition window_ok :: "NuCachedSource2 \<Rightarrow> bool" where
  "window_ok s =
     (0 \<le> sint (mCacheOffset s)
      \<and> sint (mCacheOffset s) + uint (totalSize (mCache s)) < 2 ^ 63)"

text \<open>Retries are exhausted: the test of \<^verbatim>\<open>onFetch\<close>, \<^verbatim>\<open>readInternal\<close> and the restart.\<close>

definition exhausted :: "NuCachedSource2 \<Rightarrow> bool" where
  "exhausted s = (mFinalStatus s \<noteq> OK \<and> mNumRetriesLeft s = 0)"

section \<open>Stages of the longer functions\<close>



text \<open>
  The three statements of \<^verbatim>\<open>fetchInternal\<close> that follow the reconnect and update the
  proxy flags, as one function (lemma \<open>fetchInternal_unfold\<close>).
\<close>

definition update_proxy_flags :: "bool \<Rightarrow> NuCachedSource2 \<Rightarrow> NuCachedSource2" where
  "update_proxy_flags q s1 =
     (let s2 = s1\<lparr>mQueryAndSetProxy := q\<rparr>;
          s3 = (if mIsProxyConfigured s2 \<and> \<not> mQueryAndSetProxy s2
                   \<and> mDisconnectAtHighwatermark s2
                then s2\<lparr>mKeepAliveIntervalUs := 0\<rparr> else s2)
      in s3\<lparr>mIsProxyConfigured := mQueryAndSetProxy s3\<rparr>)"

text \<open>
  The three stages of \<^verbatim>\<open>onFetch\<close> around the fetch itself (lemma \<open>onFetch_unfold\<close>): the
  bookkeeping before it, the high-water test after it, and the rescheduling at the end.
\<close>

definition onFetch_begin :: "NuCachedSource2 \<Rightarrow> NuCachedSource2" where
  "onFetch_begin s =
     (let s1 = (if mFinalStatus s \<noteq> OK \<and> mNumRetriesLeft s = 0
                then s\<lparr>mFetching := False\<rparr> else s)
      in if (mFinalStatus s1 \<noteq> OK \<and> 0 <s mNumRetriesLeft s1) \<and> mIsProxyConfigured s1
         then s1\<lparr>mQueryAndSetProxy := True\<rparr> else s1)"

definition onFetch_after ::
  "DataSource \<Rightarrow> int64_t \<Rightarrow> NuCachedSource2 \<Rightarrow> error + (NuCachedSource2 \<times> event list)" where
  "onFetch_after src now2 s3 =
     (let s4 = s3\<lparr>mLastFetchTimeUs := now2\<rparr> in
      if mFetching s4 \<and> mHighwaterThresholdBytes s4 \<le> totalSize (mCache s4)
      then
        (let s5 = s4\<lparr>mFetching := False\<rparr> in
         if mDisconnectAtHighwatermark s5
            \<and> src_flags src AND kIsHTTPBasedSource \<noteq> 0
            \<and> \<not> mIsProxyConfigured s5
         then Inr (s5\<lparr>mFinalStatus := - EAGAIN\<rparr>, [SourceDisconnect])
         else Inr (s5, []))
      else Inr (s4, []))"

definition onFetch_end ::
  "NuCachedSource2 \<Rightarrow> event list \<Rightarrow> error + (NuCachedSource2 \<times> event list)" where
  "onFetch_end s6 evs =
     (let delayUs = (if mFetching s6
                     then (if mFinalStatus s6 \<noteq> OK \<and> 0 <s mNumRetriesLeft s6
                           then 3000000 else 0)
                     else 100000)
      in if mSuspended s6
         then Inr (s6\<lparr>mFinalStatus := - EAGAIN\<rparr>, evs @ [SourceDisconnect])
         else Inr (s6, evs @ [PostFetchMore delayUs]))"

section \<open>Runs of the prefetcher\<close>

text \<open>
  A sequence of FETCH activations, each with the upstream as it behaves then and its two
  clock readings. \<open>run_onFetch\<close> runs them all; \<open>fill_run\<close> runs them while the
  prefetcher is filling, that is up to the first activation that finds \<open>mFetching\<close>
  false.
\<close>

fun run_onFetch ::
  "(DataSource \<times> int64_t \<times> int64_t) list \<Rightarrow> NuCachedSource2 \<Rightarrow> error + NuCachedSource2" where
  "run_onFetch [] s = Inr s"
| "run_onFetch ((src, now1, now2) # rest) s =
     (case onFetch src now1 now2 s of
        Inl e \<Rightarrow> Inl e
      | Inr (s', evs) \<Rightarrow> run_onFetch rest s')"

fun fill_run ::
  "(DataSource \<times> int64_t \<times> int64_t) list \<Rightarrow> NuCachedSource2 \<Rightarrow> error + NuCachedSource2" where
  "fill_run [] s = Inr s"
| "fill_run ((src, now1, now2) # rest) s =
     (if \<not> mFetching s then Inr s
      else
        (case onFetch src now1 now2 s of
           Inl e \<Rightarrow> Inl e
         | Inr (s', evs) \<Rightarrow> fill_run rest s'))"

text \<open>The upstream honours the size it is asked for: it returns at most \<open>kPageSize\<close>.\<close>

definition honours_page_size :: "DataSource \<Rightarrow> bool" where
  "honours_page_size src = (\<forall>offset. fst (src_readAt src offset kPageSize) \<le>s kPageSize)"

text \<open>
  What one call of \<^verbatim>\<open>fetchInternal\<close> keeps: \<open>mFetching\<close> and the high-water mark; the
  total size grows by at most a page; the retry counter stays non-negative.
\<close>

definition fetch_inv :: "NuCachedSource2 \<Rightarrow> NuCachedSource2 \<Rightarrow> bool" where
  "fetch_inv s t =
     (mFetching t = mFetching s
      \<and> mHighwaterThresholdBytes t = mHighwaterThresholdBytes s
      \<and> unat (totalSize (mCache t)) \<le> unat (totalSize (mCache s)) + unat kPageSize
      \<and> 0 \<le>s mNumRetriesLeft t)"

text \<open>
  The invariant of the fill phase: while \<open>mFetching\<close> holds the total size is below the
  high-water mark; the total size is below the mark plus a page; the retry counter is
  not negative.
\<close>

definition fill_inv :: "NuCachedSource2 \<Rightarrow> bool" where
  "fill_inv s =
     ((\<not> mFetching s \<or> totalSize (mCache s) < mHighwaterThresholdBytes s)
      \<and> unat (totalSize (mCache s)) < unat (mHighwaterThresholdBytes s) + unat kPageSize
      \<and> 0 \<le>s mNumRetriesLeft s)"

section \<open>Configuration strings\<close>

text \<open>
  The decimal numeral of an integer, and the configuration string
  \<^verbatim>\<open>lo/hi/keepalive\<close> of three integers, as the spec describes the format.
\<close>

fun dec_nat :: "nat \<Rightarrow> string" where
  "dec_nat n =
     (if n < 10 then [char_of (48 + n)]
      else dec_nat (n div 10) @ [char_of (48 + n mod 10)])"

declare dec_nat.simps [simp del]

definition dec :: "int \<Rightarrow> string" where
  "dec i = (if i < 0 then CHR ''-'' # dec_nat (nat (- i)) else dec_nat (nat i))"

definition config_string :: "int \<Rightarrow> int \<Rightarrow> int \<Rightarrow> string" where
  "config_string lo hi keepalive = dec lo @ ''/'' @ dec hi @ ''/'' @ dec keepalive"

text \<open>
  The parameters the spec gives for three integers: a token that is at least 0 sets its
  parameter, a negative one yields the default, and watermarks that are not in order
  revert to their defaults. The result is the low-water mark and the high-water mark in
  bytes and the keep-alive period in microseconds.
\<close>

definition spec_cache_params :: "int \<Rightarrow> int \<Rightarrow> int \<Rightarrow> int \<times> int \<times> int" where
  "spec_cache_params lo hi keepalive =
     (let lo_water = (if 0 \<le> lo then lo * 1024 else 2 * 1024 * 1024);
          hi_water = (if 0 \<le> hi then hi * 1024 else 20 * 1024 * 1024);
          period = (if 0 \<le> keepalive then keepalive * 1000000 else 15 * 1000000)
      in if hi_water \<le> lo_water then (2 * 1024 * 1024, 20 * 1024 * 1024, period)
         else (lo_water, hi_water, period))"

section \<open>Example states\<close>

text \<open>
  A page filled by a short read, and an engine whose cache holds the seven bytes
  \<open>1, \<dots>, 7\<close> of the stream from offset 100 on, in two pages; the same engine after
  the stream has ended, idle and with no retries left.
\<close>

definition ex_page :: "byte list \<Rightarrow> Page" where
  "ex_page bs = \<lparr>mData = bs @ replicate (65536 - length bs) 0, mSize = of_nat (length bs)\<rparr>"

definition ex_cache :: PageCache where
  "ex_cache =
     \<lparr>mPageSize = kPageSize, mTotalSize = 7,
      mActivePages = [ex_page [1, 2, 3, 4], ex_page [5, 6, 7]], mFreePages = []\<rparr>"

definition ex_engine :: NuCachedSource2 where
  "ex_engine =
     \<lparr>mCache = ex_cache,
      mCacheOffset = 100,
      mFinalStatus = OK,
      mLastAccessPos = 100,
      mFetching = True,
      mDisconnecting = False,
      mLastFetchTimeUs = 0,
      mNumRetriesLeft = kMaxNumRetries,
      mHighwaterThresholdBytes = kDefaultHighWaterThreshold,
      mLowwaterThresholdBytes = kDefaultLowWaterThreshold,
      mKeepAliveIntervalUs = kDefaultKeepAliveIntervalUs,
      mDisconnectAtHighwatermark = False,
      mIsProxyConfigured = False,
      mQueryAndSetProxy = False,
      mSuspended = False,
      mAsyncResult = None\<rparr>"

definition ex_ended :: NuCachedSource2 where
  "ex_ended = ex_engine\<lparr>mFinalStatus := ERROR_END_OF_STREAM, mNumRetriesLeft := 0,
                         mFetching := False\<rparr>"

text \<open>
  A full page, and two idle engines with larger caches from offset 0 on: one holds 96
  full pages (6 MiB) with the reader 1 MiB into the window; the other holds 17 full
  pages and a page of three bytes, with the reader at the end of the 17th page.
\<close>

definition ex_full_page :: Page where
  "ex_full_page = \<lparr>mData = replicate 65536 7, mSize = 65536\<rparr>"

definition ex_ahead :: NuCachedSource2 where
  "ex_ahead =
     ex_engine\<lparr>mCache := \<lparr>mPageSize = kPageSize, mTotalSize = 6291456,
                            mActivePages = replicate 96 ex_full_page, mFreePages = []\<rparr>,
               mCacheOffset := 0, mLastAccessPos := 1048576, mFetching := False\<rparr>"

definition ex_behind :: NuCachedSource2 where
  "ex_behind =
     ex_engine\<lparr>mCache := \<lparr>mPageSize = kPageSize, mTotalSize = 1114115,
                            mActivePages = replicate 17 ex_full_page @ [ex_page [1, 2, 3]],
                            mFreePages = []\<rparr>,
               mCacheOffset := 0, mLastAccessPos := 1114112, mFetching := False\<rparr>"

text \<open>
  Three upstream sources: an HTTP-based one and a local file, which answer a read with
  the four bytes \<open>9, 9, 9, 9\<close>, and an HTTP-based one that always fills the page. All
  accept a reconnect.
\<close>

definition ex_http_source :: DataSource where
  "ex_http_source =
     \<lparr>src_flags = kIsHTTPBasedSource,
      src_readAt = (\<lambda>offset sz. (4, [9, 9, 9, 9])),
      src_reconnectAtOffset = (\<lambda>offset q. (OK, q))\<rparr>"

definition ex_file_source :: DataSource where
  "ex_file_source = ex_http_source\<lparr>src_flags := 0\<rparr>"

definition ex_full_source :: DataSource where
  "ex_full_source =
     \<lparr>src_flags = kIsHTTPBasedSource,
      src_readAt = (\<lambda>offset sz. (65536, replicate 65536 7)),
      src_reconnectAtOffset = (\<lambda>offset q. (OK, q))\<rparr>"

text \<open>
  Engines right after construction: with no configuration at all; with the system
  property \<^verbatim>\<open>100/200/5\<close> and the \<^verbatim>\<open>cacheConfig\<close> string \<^verbatim>\<open>300/400\<close>, whose third token
  is absent; and with the \<^verbatim>\<open>cacheConfig\<close> string \<^verbatim>\<open>0/64/1\<close>, a high-water mark of
  64 KiB and a keep-alive period of one second.
\<close>

definition ex_new :: NuCachedSource2 where
  "ex_new = fst (NuCachedSource2_new None None None False False)"

definition ex_configured :: NuCachedSource2 where
  "ex_configured = fst (NuCachedSource2_new (Some ''100/200/5'') None (Some ''300/400'') False False)"

definition ex_small :: NuCachedSource2 where
  "ex_small = fst (NuCachedSource2_new None None (Some ''0/64/1'') False False)"

section \<open>The page cache: lemmas\<close>

lemma sum_sizes_simps [simp]:
  "sum_sizes [] = 0" "sum_sizes (p # ps) = unat (mSize p) + sum_sizes ps"
  "sum_sizes (ps @ qs) = sum_sizes ps + sum_sizes qs"
  by (simp_all add: sum_sizes_def)

lemma pages_ok_simps [simp]:
  "pages_ok []" "pages_ok (p # ps) = (unat (mSize p) \<le> length (mData p) \<and> pages_ok ps)"
  "pages_ok (ps @ qs) = (pages_ok ps \<and> pages_ok qs)"
  by (simp_all add: pages_ok_def)

lemma pages_bytes_simps [simp]:
  "pages_bytes [] = []" "pages_bytes (p # ps) = page_bytes p @ pages_bytes ps"
  "pages_bytes (ps @ qs) = pages_bytes ps @ pages_bytes qs"
  by (simp_all add: pages_bytes_def)

lemma length_page_bytes: "unat (mSize p) \<le> length (mData p) \<Longrightarrow> length (page_bytes p) = unat (mSize p)"
  by (simp add: page_bytes_def)

lemma length_pages_bytes: "pages_ok ps \<Longrightarrow> length (pages_bytes ps) = sum_sizes ps"
  by (induction ps) (auto simp: length_page_bytes)

lemma copy_rest_0 [simp]: "copy_rest 0 ps = Inr []"
  by (cases ps) simp_all

lemma copy_rest_correct:
  "pages_ok ps \<Longrightarrow> unat sz \<le> sum_sizes ps \<Longrightarrow>
   copy_rest sz ps = Inr (take (unat sz) (pages_bytes ps))"
proof (induction ps arbitrary: sz)
  case Nil
  then show ?case by (simp add: unat_eq_zero)
next
  case (Cons p ps)
  show ?case
  proof (cases "0 < sz")
    case False
    then have "sz = 0" using word_neq_0_conv by blast
    then show ?thesis by simp
  next
    case pos: True
    show ?thesis
    proof (cases "sz < mSize p")
      case True
      then have "unat sz < unat (mSize p)" by (simp add: word_less_nat_alt)
      with Cons.prems pos True show ?thesis
        by (simp add: memcpy_from_def page_bytes_def)
    next
      case False
      then have le: "unat (mSize p) \<le> unat sz" by (simp add: word_less_nat_alt)
      then have sub: "unat (sz - mSize p) = unat sz - unat (mSize p)"
        by (simp add: unat_sub word_le_nat_alt)
      with Cons.prems le have "unat (sz - mSize p) \<le> sum_sizes ps" by simp
      with Cons.IH Cons.prems have "copy_rest (sz - mSize p) ps = Inr (take (unat (sz - mSize p)) (pages_bytes ps))"
        by simp
      with Cons.prems pos False le sub show ?thesis
        by (simp add: memcpy_from_def page_bytes_def length_page_bytes Let_def)
    qed
  qed
qed

lemma copy_skip_correct:
  "unat offset \<le> unat frm \<Longrightarrow> unat frm < unat offset + sum_sizes ps \<Longrightarrow>
   unat offset + sum_sizes ps < 2 ^ 64 \<Longrightarrow>
   \<exists>pre page rest off'. ps = pre @ page # rest
      \<and> copy_skip frm offset ps = Inr (off', page, rest)
      \<and> unat off' = unat offset + sum_sizes pre
      \<and> unat off' \<le> unat frm \<and> unat frm < unat off' + unat (mSize page)"
proof (induction ps arbitrary: offset)
  case Nil
  then show ?case by simp
next
  case (Cons p ps)
  from Cons.prems have nowrap: "unat (offset + mSize p) = unat offset + unat (mSize p)"
    by (simp add: unat_add_lem [THEN iffD1])
  show ?case
  proof (cases "offset + mSize p \<le> frm")
    case True
    then have le: "unat offset + unat (mSize p) \<le> unat frm"
      using nowrap by (simp add: word_le_nat_alt)
    from Cons.IH [of "offset + mSize p"] Cons.prems nowrap le
    obtain pre page rest off' where h: "ps = pre @ page # rest"
      "copy_skip frm (offset + mSize p) ps = Inr (off', page, rest)"
      "unat off' = unat (offset + mSize p) + sum_sizes pre"
      "unat off' \<le> unat frm" "unat frm < unat off' + unat (mSize page)"
      by auto
    show ?thesis
      apply (rule exI [of _ "p # pre"], rule exI [of _ page], rule exI [of _ rest], rule exI [of _ off'])
      using h True nowrap by simp
  next
    case False
    then have "unat frm < unat offset + unat (mSize p)"
      using nowrap by (simp add: word_le_nat_alt)
    with False Cons.prems show ?thesis
      by (intro exI [of _ "[]"] exI [of _ p] exI [of _ ps] exI [of _ offset]) simp
  qed
qed

lemma copy_correct:
  assumes ok: "pages_ok (mActivePages c)"
    and tot: "unat (mTotalSize c) = sum_sizes (mActivePages c)"
    and le: "unat frm + unat sz \<le> unat (mTotalSize c)"
  shows "copy frm sz c = Inr (take (unat sz) (drop (unat frm) (pages_bytes (mActivePages c))))"
proof (cases "sz = 0")
  case True
  then show ?thesis by (simp add: copy_def)
next
  case False
  then have pos: "0 < unat sz" by (simp add: unat_gt_0)
  have lt64: "unat (mTotalSize c) < 2 ^ 64" using unsigned_less [of "mTotalSize c", where ?'a = nat] by simp
  from le lt64 have nowrap: "unat (frm + sz) = unat frm + unat sz"
    by (simp add: unat_add_lem [THEN iffD1])
  with le have chk: "frm + sz \<le> mTotalSize c" by (simp add: word_le_nat_alt)
  from pos le tot lt64
  obtain pre page rest off' where h: "mActivePages c = pre @ page # rest"
      "copy_skip frm 0 (mActivePages c) = Inr (off', page, rest)"
      "unat off' = sum_sizes pre"
      "unat off' \<le> unat frm" "unat frm < unat off' + unat (mSize page)"
    using copy_skip_correct [of 0 frm "mActivePages c"] by auto
  define delta where "delta = frm - off'"
  define avail where "avail = mSize page - delta"
  from h have ud: "unat delta = unat frm - unat off'"
    by (simp add: delta_def unat_sub word_le_nat_alt)
  with h have dlt: "unat delta < unat (mSize page)" by simp
  then have ua: "unat avail = unat (mSize page) - unat delta"
    by (simp add: avail_def unat_sub word_le_nat_alt)
  from ok h have okp: "unat (mSize page) \<le> length (mData page)" "pages_ok pre" "pages_ok rest"
    by simp_all
  have lenpre: "length (pages_bytes pre) = unat off'"
    using okp h by (simp add: length_pages_bytes)
  have all: "drop (unat frm) (pages_bytes (mActivePages c))
      = drop (unat delta) (page_bytes page) @ pages_bytes rest"
    using h lenpre ud dlt okp by (simp add: length_page_bytes)
  show ?thesis
  proof (cases "sz \<le> avail")
    case True
    then have "unat sz \<le> unat avail" by (simp add: word_le_nat_alt)
    with ua dlt okp have "memcpy_from page delta sz = Inr (take (unat sz) (drop (unat delta) (page_bytes page)))"
      by (simp add: memcpy_from_def page_bytes_def drop_take min_def)
    moreover have "take (unat sz) (drop (unat delta) (page_bytes page) @ pages_bytes rest)
        = take (unat sz) (drop (unat delta) (page_bytes page))"
      using \<open>unat sz \<le> unat avail\<close> ua okp by (simp add: length_page_bytes)
    ultimately show ?thesis
      using False chk h True all by (simp add: copy_def delta_def avail_def Let_def)
  next
    case gt: False
    then have lt: "unat avail < unat sz" by (simp add: word_le_nat_alt)
    then have us: "unat (sz - avail) = unat sz - unat avail"
      by (simp add: unat_sub word_le_nat_alt)
    from ua dlt okp have m: "memcpy_from page delta avail = Inr (drop (unat delta) (page_bytes page))"
      by (simp add: memcpy_from_def page_bytes_def drop_take)
    from le tot h ud ua us dlt have "unat (sz - avail) \<le> sum_sizes rest" by simp
    with okp have r: "copy_rest (sz - avail) rest = Inr (take (unat (sz - avail)) (pages_bytes rest))"
      by (simp add: copy_rest_correct)
    have "take (unat sz) (drop (unat delta) (page_bytes page) @ pages_bytes rest)
        = drop (unat delta) (page_bytes page) @ take (unat sz - unat avail) (pages_bytes rest)"
      using lt ua okp by (simp add: length_page_bytes)
    with m r us show ?thesis
      using False chk h gt all by (simp add: copy_def delta_def avail_def Let_def)
  qed
qed

lemma release_loop_split:
  "release_loop maxBytes rel ps free = (rel', act', free') \<Longrightarrow>
   \<exists>pre. ps = pre @ act' \<and> sum_sizes pre \<le> unat maxBytes
      \<and> rel' = rel + of_nat (sum_sizes pre)
      \<and> free' = free @ map (\<lambda>p. p\<lparr>mSize := 0\<rparr>) pre"
proof (induction ps arbitrary: maxBytes rel free)
  case Nil
  then show ?case by simp
next
  case (Cons p ps)
  show ?case
  proof (cases "0 < maxBytes \<and> \<not> maxBytes < mSize p")
    case False
    with Cons.prems have "rel' = rel \<and> act' = p # ps \<and> free' = free"
      by (auto split: if_splits)
    then show ?thesis by (intro exI [of _ "[]"]) simp
  next
    case True
    then have le: "unat (mSize p) \<le> unat maxBytes" by (simp add: word_less_nat_alt)
    then have sub: "unat (maxBytes - mSize p) = unat maxBytes - unat (mSize p)"
      by (simp add: unat_sub word_le_nat_alt)
    from True Cons.prems
    have "release_loop (maxBytes - mSize p) (rel + mSize p) ps (free @ [p\<lparr>mSize := 0\<rparr>])
            = (rel', act', free')"
      by simp
    from Cons.IH [OF this] obtain pre where
      h: "ps = pre @ act'" "sum_sizes pre \<le> unat (maxBytes - mSize p)"
         "rel' = rel + mSize p + of_nat (sum_sizes pre)"
         "free' = (free @ [p\<lparr>mSize := 0\<rparr>]) @ map (\<lambda>p. p\<lparr>mSize := 0\<rparr>) pre"
      by blast
    show ?thesis
      using h le sub by (intro exI [of _ "p # pre"]) (simp add: add.assoc)
  qed
qed

lemma release_loop_rest_zero:
  "release_loop maxBytes rel ps free = (rel', act', free') \<Longrightarrow>
   sum_sizes ps \<le> unat maxBytes \<Longrightarrow> sum_sizes act' = 0"
proof (induction ps arbitrary: maxBytes rel free)
  case Nil
  then show ?case by auto
next
  case (Cons p ps)
  show ?case
  proof (cases "0 < maxBytes")
    case False
    then have "unat maxBytes = 0" by (simp add: word_less_nat_alt)
    with Cons.prems False show ?thesis by auto
  next
    case True
    from Cons.prems have le: "unat (mSize p) \<le> unat maxBytes" by simp
    then have sub: "unat (maxBytes - mSize p) = unat maxBytes - unat (mSize p)"
      by (simp add: unat_sub word_le_nat_alt)
    from le have "\<not> maxBytes < mSize p" by (simp add: word_less_nat_alt)
    with True Cons.prems
    have "release_loop (maxBytes - mSize p) (rel + mSize p) ps (free @ [p\<lparr>mSize := 0\<rparr>])
            = (rel', act', free')"
      by simp
    moreover from Cons.prems sub have "sum_sizes ps \<le> unat (maxBytes - mSize p)" by simp
    ultimately show ?thesis by (rule Cons.IH)
  qed
qed

lemma release_loop_all:
  "release_loop maxBytes rel ps free = (rel', act', free') \<Longrightarrow>
   sum_sizes ps < unat maxBytes \<Longrightarrow> act' = []"
proof (induction ps arbitrary: maxBytes rel free)
  case Nil
  then show ?case by auto
next
  case (Cons p ps)
  from Cons.prems(2) have pos: "0 < maxBytes" by (simp add: word_less_nat_alt)
  from Cons.prems have le: "unat (mSize p) \<le> unat maxBytes" by simp
  then have sub: "unat (maxBytes - mSize p) = unat maxBytes - unat (mSize p)"
    by (simp add: unat_sub word_le_nat_alt)
  from le have "\<not> maxBytes < mSize p" by (simp add: word_less_nat_alt)
  with pos Cons.prems
  have "release_loop (maxBytes - mSize p) (rel + mSize p) ps (free @ [p\<lparr>mSize := 0\<rparr>])
          = (rel', act', free')"
    by simp
  moreover from Cons.prems sub have "sum_sizes ps < unat (maxBytes - mSize p)" by simp
  ultimately show ?case by (rule Cons.IH)
qed

lemma releaseFromStart_le:
  "releaseFromStart maxBytes c = (released, c') \<Longrightarrow> unat released \<le> unat maxBytes"
proof -
  assume a: "releaseFromStart maxBytes c = (released, c')"
  then obtain act free where
    r: "release_loop maxBytes 0 (mActivePages c) (mFreePages c) = (released, act, free)"
    by (auto simp: releaseFromStart_def split: prod.splits)
  from release_loop_split [OF r] obtain pre where
    h: "sum_sizes pre \<le> unat maxBytes" "released = of_nat (sum_sizes pre)" by auto
  have "unat (of_nat (sum_sizes pre) :: size_t) \<le> sum_sizes pre"
    by (simp add: unat_of_nat)
  with h show ?thesis by simp
qed

lemma releaseFromStart_wf:
  assumes wf: "cache_wf c" and a: "releaseFromStart maxBytes c = (released, c')"
  shows "cache_wf c'"
    and "unat released \<le> unat (mTotalSize c)"
    and "unat (mTotalSize c') = unat (mTotalSize c) - unat released"
    and "pages_bytes (mActivePages c') = drop (unat released) (pages_bytes (mActivePages c))"
proof -
  from a obtain act free where
    r: "release_loop maxBytes 0 (mActivePages c) (mFreePages c) = (released, act, free)"
    and c': "c' = c\<lparr>mTotalSize := mTotalSize c - released, mActivePages := act, mFreePages := free\<rparr>"
    by (auto simp: releaseFromStart_def split: prod.splits)
  from release_loop_split [OF r] obtain pre where
    h: "mActivePages c = pre @ act" "released = of_nat (sum_sizes pre)" by auto
  from wf h have tot: "unat (mTotalSize c) = sum_sizes pre + sum_sizes act"
    and ok: "pages_ok pre" "pages_ok act"
    by (simp_all add: cache_wf_def)
  have "sum_sizes pre < 2 ^ 64"
    using tot unsigned_less [of "mTotalSize c", where ?'a = nat] by simp
  with h have ur: "unat released = sum_sizes pre" by (simp add: unat_of_nat)
  with tot show le: "unat released \<le> unat (mTotalSize c)" by simp
  then have sub: "unat (mTotalSize c - released) = unat (mTotalSize c) - unat released"
    by (simp add: unat_sub word_le_nat_alt)
  with c' show "unat (mTotalSize c') = unat (mTotalSize c) - unat released" by simp
  from c' sub tot ur ok show "cache_wf c'" by (simp add: cache_wf_def)
  from c' h ur ok show "pages_bytes (mActivePages c') = drop (unat released) (pages_bytes (mActivePages c))"
    by (simp add: length_pages_bytes)
qed

lemma releaseFromStart_all:
  assumes wf: "cache_wf c" and le: "unat (mTotalSize c) \<le> unat maxBytes"
    and a: "releaseFromStart maxBytes c = (released, c')"
  shows "released = mTotalSize c" and "mTotalSize c' = 0"
    and "pages_bytes (mActivePages c') = []"
proof -
  from a obtain act free where
    r: "release_loop maxBytes 0 (mActivePages c) (mFreePages c) = (released, act, free)"
    and c': "c' = c\<lparr>mTotalSize := mTotalSize c - released, mActivePages := act, mFreePages := free\<rparr>"
    by (auto simp: releaseFromStart_def split: prod.splits)
  from wf le have "sum_sizes (mActivePages c) \<le> unat maxBytes" by (simp add: cache_wf_def)
  from release_loop_rest_zero [OF r this] have z: "sum_sizes act = 0" .
  from releaseFromStart_wf [OF wf a] c' z
  have "unat (mTotalSize c) - unat released = 0" "unat released \<le> unat (mTotalSize c)"
    and ok: "pages_ok act"
    by (simp_all add: cache_wf_def)
  then have "unat released = unat (mTotalSize c)" by simp
  then show "released = mTotalSize c" by (simp add: word_unat_eq_iff)
  with c' show "mTotalSize c' = 0" by simp
  from ok z have "length (pages_bytes act) = 0" by (simp add: length_pages_bytes)
  with c' show "pages_bytes (mActivePages c') = []" by simp
qed

lemma releaseFromStart_all_pages:
  assumes wf: "cache_wf c" and lt: "unat (mTotalSize c) < unat maxBytes"
    and a: "releaseFromStart maxBytes c = (released, c')"
  shows "mActivePages c' = []"
proof -
  from a obtain act free where
    r: "release_loop maxBytes 0 (mActivePages c) (mFreePages c) = (released, act, free)"
    and c': "c' = c\<lparr>mTotalSize := mTotalSize c - released, mActivePages := act, mFreePages := free\<rparr>"
    by (auto simp: releaseFromStart_def split: prod.splits)
  from wf lt have "sum_sizes (mActivePages c) < unat maxBytes" by (simp add: cache_wf_def)
  from release_loop_all [OF r this] c' show ?thesis by simp
qed

subsection \<open>Signed and unsigned readings of 64-bit words\<close>

lemma sint_plus_uint:
  fixes a b :: "64 word"
  assumes "sint a + uint b < 2 ^ 63"
  shows "sint (a + b) = sint a + uint b"
proof -
  have "a + b = word_of_int (sint a + uint b)" by simp
  then have "sint (a + b) = signed_take_bit 63 (sint a + uint b)"
    by (simp only: sint_sbintrunc') simp
  also have "\<dots> = sint a + uint b"
  proof (rule signed_take_bit_int_eq_self)
    have "0 \<le> uint b" by simp
    moreover have "- (2 ^ 63) \<le> sint a" using sint_ge [of a] by simp
    ultimately show "- (2 ^ 63) \<le> sint a + uint b" by linarith
    show "sint a + uint b < 2 ^ 63" by (fact assms)
  qed
  finally show ?thesis .
qed

lemma uint_eq_sint:
  fixes a :: "64 word"
  assumes "0 \<le> sint a"
  shows "uint a = sint a"
proof -
  have "uint a = take_bit 64 (sint a)" by (simp add: uint_sint)
  also have "\<dots> = sint a"
    using assms sint_lt [of a] by (intro take_bit_int_eq_self) simp_all
  finally show ?thesis .
qed

lemma uint_diff_sint:
  fixes a b :: "64 word"
  shows "uint (a - b) = (sint a - sint b) mod 2 ^ 64"
proof -
  have "a - b = word_of_int (sint a - sint b)" by simp
  then have "uint (a - b) = uint (word_of_int (sint a - sint b) :: 64 word)" by simp
  also have "\<dots> = (sint a - sint b) mod 2 ^ 64"
    by (simp only: uint_word_of_int) (simp add: take_bit_eq_mod)
  finally show ?thesis .
qed

lemma uint_diff_sint_pos:
  fixes a b :: "64 word"
  assumes "sint b \<le> sint a"
  shows "uint (a - b) = sint a - sint b"
proof -
  have "sint a - sint b < 2 ^ 64"
    using sint_lt [of a] sint_ge [of b] by simp
  with assms show ?thesis by (simp add: uint_diff_sint)
qed

lemma uint_diff_sint_neg:
  fixes a b :: "64 word"
  assumes "sint a < sint b"
  shows "uint (a - b) = 2 ^ 64 - (sint b - sint a)"
proof -
  have lo: "0 \<le> sint a - sint b + 2 ^ 64"
    using sint_ge [of a] sint_lt [of b] by simp
  have hi: "sint a - sint b + 2 ^ 64 < 2 ^ 64" using assms by simp
  have "(sint a - sint b) mod 2 ^ 64 = (sint a - sint b + 2 ^ 64) mod 2 ^ 64"
    by simp
  also have "\<dots> = sint a - sint b + 2 ^ 64"
    using lo hi by (rule mod_pos_pos_trivial)
  finally show ?thesis by (simp add: uint_diff_sint)
qed

lemma uint_plus_nowrap:
  fixes a b :: "64 word"
  assumes "uint a + uint b < 2 ^ 64"
  shows "uint (a + b) = uint a + uint b"
  using assms by (simp add: uint_add_lem [THEN iffD1])

subsection \<open>The example states are well formed\<close>

lemma ex_cache_wf: "cache_wf ex_cache"
  by (simp add: cache_wf_def ex_cache_def ex_page_def)

lemma ex_cache_bytes: "pages_bytes (mActivePages ex_cache) = [1, 2, 3, 4, 5, 6, 7]"
  by (simp add: ex_cache_def ex_page_def page_bytes_def)

lemma ex_engine_wf: "cache_wf (mCache ex_engine)"
  by (simp add: ex_engine_def ex_cache_wf)

lemma ex_engine_window:
  "sint (mCacheOffset ex_engine) + uint (totalSize (mCache ex_engine)) < 2 ^ 63"
  by (simp add: ex_engine_def ex_cache_def totalSize_def)

subsection \<open>The larger example states\<close>

lemma sum_sizes_replicate: "sum_sizes (replicate n p) = n * unat (mSize p)"
  by (induction n) simp_all

lemma pages_ok_replicate: "pages_ok (replicate n p) = (n = 0 \<or> unat (mSize p) \<le> length (mData p))"
  by (induction n) auto

lemma ex_ahead_wf: "cache_wf (mCache ex_ahead)"
  by (simp add: ex_ahead_def ex_engine_def cache_wf_def sum_sizes_replicate pages_ok_replicate
      ex_full_page_def)

lemma ex_behind_wf: "cache_wf (mCache ex_behind)"
  by (simp add: ex_behind_def ex_engine_def cache_wf_def sum_sizes_replicate pages_ok_replicate
      ex_full_page_def ex_page_def)

lemma replicate_17: "replicate 17 x = x # replicate 16 x"
  by (simp add: numeral_eq_Suc)

lemma release_loop_0: "release_loop 0 rel ps free = (rel, ps, free)"
  by (cases ps) simp_all

lemma ex_behind_release:
  "releaseFromStart 65536 (mCache ex_behind)
     = (65536, \<lparr>mPageSize = kPageSize, mTotalSize = 1048579,
                 mActivePages = replicate 16 ex_full_page @ [ex_page [1, 2, 3]],
                 mFreePages = [ex_full_page\<lparr>mSize := 0\<rparr>]\<rparr>)"
  by (simp add: releaseFromStart_def ex_behind_def ex_engine_def replicate_17 release_loop_0
      ex_full_page_def)

section \<open>Scanning configuration strings: lemmas\<close>

lemma digit_char:
  assumes "d < 10"
  shows "of_char (char_of (48 + d :: nat)) = 48 + d" and "isdigit (char_of (48 + d))"
    and "\<not> isspace (char_of (48 + d))"
  using assms by (simp_all add: isdigit_def isspace_def)

lemma scan_digits_dec_nat:
  "scan_digits acc (dec_nat n @ rest)
     = scan_digits (acc * 10 ^ length (dec_nat n) + int n) rest"
proof (induction n arbitrary: acc rest rule: dec_nat.induct)
  case (1 n)
  show ?case
  proof (cases "n < 10")
    case True
    then show ?thesis
      by (subst (1 2) dec_nat.simps) (simp add: digit_char)
  next
    case False
    have d: "n mod 10 < 10" by simp
    have split: "int (n div 10) * 10 + int (n mod 10) = int n"
      by (metis mult.commute of_nat_add of_nat_mult of_nat_numeral div_mult_mod_eq mult.commute)
    have "scan_digits acc (dec_nat n @ rest)
        = scan_digits acc (dec_nat (n div 10) @ (char_of (48 + n mod 10) # rest))"
      using False by (subst dec_nat.simps) simp
    also have "\<dots> = scan_digits (acc * 10 ^ length (dec_nat (n div 10)) + int (n div 10))
                        (char_of (48 + n mod 10) # rest)"
      using False by (rule "1.IH")
    also have "\<dots> = scan_digits ((acc * 10 ^ length (dec_nat (n div 10)) + int (n div 10)) * 10
                          + int (n mod 10)) rest"
      using d by (simp add: digit_char)
    also have "(acc * 10 ^ length (dec_nat (n div 10)) + int (n div 10)) * 10 + int (n mod 10)
        = acc * 10 ^ length (dec_nat n) + int n"
    proof -
      have "length (dec_nat n) = Suc (length (dec_nat (n div 10)))"
        using False by (subst dec_nat.simps) simp
      then show ?thesis using split by (simp add: algebra_simps)
    qed
    finally show ?thesis .
  qed
qed

lemma scan_digits_stop:
  "rest = [] \<or> \<not> isdigit (hd rest) \<Longrightarrow> scan_digits acc rest = (acc, rest)"
  by (cases rest) auto

lemma dec_nat_hd:
  "\<exists>c cs. dec_nat n = c # cs \<and> isdigit c \<and> \<not> isspace c \<and> c \<noteq> CHR ''-'' \<and> c \<noteq> CHR ''+''"
proof (induction n rule: dec_nat.induct)
  case (1 n)
  show ?case
  proof (cases "n < 10")
    case True
    have "char_of (48 + n) \<noteq> CHR ''-''"
    proof
      assume "char_of (48 + n) = CHR ''-''"
      with digit_char(1) [OF True] have "(of_char CHR ''-'' :: nat) = 48 + n" by simp
      then show False by simp
    qed
    moreover have "char_of (48 + n) \<noteq> CHR ''+''"
    proof
      assume "char_of (48 + n) = CHR ''+''"
      with digit_char(1) [OF True] have "(of_char CHR ''+'' :: nat) = 48 + n" by simp
      then show False by simp
    qed
    ultimately have "char_of (48 + n) \<noteq> CHR ''-''" "char_of (48 + n) \<noteq> CHR ''+''"
      by simp_all
    with True show ?thesis
      by (subst dec_nat.simps) (simp add: digit_char)
  next
    case False
    with "1.IH" obtain c cs where "dec_nat (n div 10) = c # cs" "isdigit c" "\<not> isspace c"
      "c \<noteq> CHR ''-''" "c \<noteq> CHR ''+''" by blast
    with False show ?thesis
      by (subst dec_nat.simps) simp
  qed
qed

lemma scan_int_dec:
  assumes "rest = [] \<or> \<not> isdigit (hd rest)"
  shows "scan_int (dec i @ rest) = Some (i, rest)"
proof -
  define n where "n = nat \<bar>i\<bar>"
  obtain c cs where h: "dec_nat n = c # cs" "isdigit c" "\<not> isspace c"
      "c \<noteq> CHR ''-''" "c \<noteq> CHR ''+''"
    using dec_nat_hd by blast
  have digits: "scan_digits 0 (dec_nat n @ rest) = (int n, rest)"
    using assms by (simp add: scan_digits_dec_nat scan_digits_stop)
  show ?thesis
  proof (cases "i < 0")
    case True
    then have "dec i @ rest = CHR ''-'' # dec_nat n @ rest" "- int n = i"
      by (simp_all add: dec_def n_def)
    moreover have "\<not> isspace CHR ''-''" by (simp add: isspace_def)
    ultimately show ?thesis
      using h digits [unfolded h] by (simp add: scan_int_def scan_sign_def h)
  next
    case False
    then have "dec i @ rest = dec_nat n @ rest" "int n = i"
      by (simp_all add: dec_def n_def)
    then show ?thesis
      using h digits [unfolded h] by (simp add: scan_int_def scan_sign_def h)
  qed
qed

lemma not_digit_slash: "\<not> isdigit CHR ''/''"
  by (simp add: isdigit_def)

lemma strtol_range_bounds:
  "- (2 ^ 63) \<le> strtol_range v" "strtol_range v < 2 ^ 63"
  by (simp_all add: strtol_range_def LONG_MIN_def LONG_MAX_def)

lemma strtol_range_id:
  "- (2 ^ 63) \<le> v \<Longrightarrow> v < 2 ^ 63 \<Longrightarrow> strtol_range v = v"
  by (simp add: strtol_range_def LONG_MIN_def LONG_MAX_def)

lemma sint_store_zd: "sint (store_zd v) = strtol_range v"
  unfolding store_zd_def using strtol_range_bounds [of v]
  by (simp add: sint_sbintrunc' signed_take_bit_int_eq_self)

lemma sscanf_config_string:
  "sscanf_zd_zd_d (config_string lo hi keepalive)
     = (3, store_zd lo, store_zd hi, store_d keepalive)"
proof -
  have 1: "scan_int (dec lo @ CHR ''/'' # dec hi @ CHR ''/'' # dec keepalive)
             = Some (lo, CHR ''/'' # dec hi @ CHR ''/'' # dec keepalive)"
    by (rule scan_int_dec) (simp add: not_digit_slash)
  have 2: "scan_int (dec hi @ CHR ''/'' # dec keepalive) = Some (hi, CHR ''/'' # dec keepalive)"
    by (rule scan_int_dec) (simp add: not_digit_slash)
  have 3: "scan_int (dec keepalive) = Some (keepalive, [])"
    using scan_int_dec [of "[]" keepalive] by simp
  show ?thesis
    by (simp add: sscanf_zd_zd_d_def config_string_def 1 2 3 scan_slash_def)
qed

lemma sscanf_two_tokens:
  "sscanf_zd_zd_d (dec lo @ ''/'' @ dec hi) = (2, store_zd lo, store_zd hi, 0)"
proof -
  have 1: "scan_int (dec lo @ CHR ''/'' # dec hi) = Some (lo, CHR ''/'' # dec hi)"
    by (rule scan_int_dec) (simp add: not_digit_slash)
  have 2: "scan_int (dec hi) = Some (hi, [])"
    using scan_int_dec [of "[]" hi] by simp
  show ?thesis
    by (simp add: sscanf_zd_zd_d_def 1 2 scan_slash_def)
qed

lemmas scan_eval = sscanf_zd_zd_d_def scan_int_def scan_sign_def scan_slash_def isspace_def
  isdigit_def store_zd_def store_d_def strtol_range_def LONG_MIN_def LONG_MAX_def

lemma sscanf_examples:
  "sscanf_zd_zd_d ''100/200/5'' = (3, 100, 200, 5)"
  "sscanf_zd_zd_d ''300/400'' = (2, 300, 400, 0)"
  "sscanf_zd_zd_d ''500/400/-1'' = (3, 500, 400, - 1)"
  by (simp_all add: scan_eval)

lemma sscanf_out_of_range:
  "sscanf_zd_zd_d ''18446744073709551617/200/5'' = (3, 9223372036854775807, 200, 5)"
  "sscanf_zd_zd_d ''100/200/99999999999999999999'' = (3, 100, 200, - 1)"
  "sscanf_zd_zd_d ''100/200/4294967301'' = (3, 100, 200, 5)"
  "sscanf_zd_zd_d ''18014398509481984/200/5'' = (3, 18014398509481984, 200, 5)"
  by (simp_all add: scan_eval)

lemma store_zd_sign: "0 \<le> sint (store_zd a) \<longleftrightarrow> 0 \<le> a"
  by (simp add: sint_store_zd strtol_range_def LONG_MIN_def LONG_MAX_def)

lemma store_zd_times:
  assumes "0 \<le> a" "a < 2 ^ 54"
  shows "uint (store_zd a * 1024) = a * 1024"
proof -
  from assms have "strtol_range a = a" by (simp add: strtol_range_id)
  then have "store_zd a = word_of_int a" by (simp add: store_zd_def)
  moreover have "word_of_int (a * 1024) = (word_of_int a * 1024 :: size_t)" by simp
  ultimately have e: "store_zd a * 1024 = word_of_int (a * 1024)" by (simp only:)
  from assms have "0 \<le> a * 1024" "a * 1024 < 2 ^ 64" by simp_all
  then have "take_bit 64 (a * 1024) = a * 1024" by (simp only: take_bit_int_eq_self)
  moreover have "uint (word_of_int x :: size_t) = take_bit 64 x" for x
    by (simp add: uint_word_of_int_eq)
  ultimately show ?thesis unfolding e by (simp only:)
qed

lemma sint_store_d:
  assumes "- (2 ^ 31) \<le> c" "c < 2 ^ 31"
  shows "sint (store_d c) = c"
proof -
  from assms have "strtol_range c = c" by (simp add: strtol_range_id)
  then have "store_d c = word_of_int c" by (simp add: store_d_def)
  moreover have "sint (word_of_int c :: int32_t) = signed_take_bit 31 c"
    by (simp add: sint_sbintrunc')
  moreover from assms have "signed_take_bit 31 c = c"
    by (simp only: signed_take_bit_int_eq_self)
  ultimately show ?thesis by (simp only:)
qed

lemma store_d_times:
  assumes "- (2 ^ 31) \<le> c" "c < 2 ^ 31"
  shows "sint (scast (store_d c) * 1000000 :: int64_t) = c * 1000000"
proof -
  have "(scast (store_d c) :: int64_t) = word_of_int (sint (store_d c))"
    by (rule scast_eq)
  also have "\<dots> = word_of_int c" using assms by (simp only: sint_store_d)
  finally have "(scast (store_d c) * 1000000 :: int64_t) = word_of_int c * 1000000"
    by (simp only:)
  moreover have "word_of_int (c * 1000000) = (word_of_int c * 1000000 :: int64_t)" by simp
  ultimately have e: "(scast (store_d c) * 1000000 :: int64_t) = word_of_int (c * 1000000)"
    by (simp only:)
  from assms have "- (2 ^ 63) \<le> c * 1000000" "c * 1000000 < 2 ^ 63" by simp_all
  then have "signed_take_bit 63 (c * 1000000) = c * 1000000"
    by (simp only: signed_take_bit_int_eq_self)
  moreover have "sint (word_of_int x :: int64_t) = signed_take_bit 63 x" for x
    by (simp add: sint_sbintrunc')
  ultimately show ?thesis unfolding e by (simp only:)
qed

lemma water_uint:
  "a < 2 ^ 54 \<Longrightarrow>
     uint (if 0 \<le>s store_zd a then store_zd a * 1024 else d)
       = (if 0 \<le> a then a * 1024 else uint d)"
  by (simp add: word_sle_eq store_zd_sign store_zd_times)

lemma period_sint:
  "- (2 ^ 31) \<le> c \<Longrightarrow> c < 2 ^ 31 \<Longrightarrow>
     sint (if 0 \<le>s store_d c then scast (store_d c) * 1000000 else kDefaultKeepAliveIntervalUs)
       = (if 0 \<le> c then c * 1000000 else 15 * 1000000)"
  by (simp add: word_sle_eq sint_store_d store_d_times kDefaultKeepAliveIntervalUs_def)

lemma update_in_range:
  assumes "a < 2 ^ 54" "b < 2 ^ 54" "- (2 ^ 31) \<le> c" "c < 2 ^ 31"
  shows "(uint (mLowwaterThresholdBytes (updateCacheParamsFromString (config_string a b c) s)),
          uint (mHighwaterThresholdBytes (updateCacheParamsFromString (config_string a b c) s)),
          sint (mKeepAliveIntervalUs (updateCacheParamsFromString (config_string a b c) s)))
           = spec_cache_params a b c"
proof -
  let ?lw = "if 0 \<le>s store_zd a then store_zd a * 1024 else kDefaultLowWaterThreshold"
  let ?hw = "if 0 \<le>s store_zd b then store_zd b * 1024 else kDefaultHighWaterThreshold"
  let ?p = "if 0 \<le>s store_d c then scast (store_d c) * 1000000 else kDefaultKeepAliveIntervalUs"
  have lw: "uint ?lw = (if 0 \<le> a then a * 1024 else 2 * 1024 * 1024)"
    using water_uint [OF assms(1), of kDefaultLowWaterThreshold]
    by (simp add: kDefaultLowWaterThreshold_def)
  have hw: "uint ?hw = (if 0 \<le> b then b * 1024 else 20 * 1024 * 1024)"
    using water_uint [OF assms(2), of kDefaultHighWaterThreshold]
    by (simp add: kDefaultHighWaterThreshold_def)
  have p: "sint ?p = (if 0 \<le> c then c * 1000000 else 15 * 1000000)"
    using assms(3,4) by (rule period_sint)
  have u: "updateCacheParamsFromString (config_string a b c) s
      = s\<lparr>mLowwaterThresholdBytes := (if ?hw \<le> ?lw then kDefaultLowWaterThreshold else ?lw),
          mHighwaterThresholdBytes := (if ?hw \<le> ?lw then kDefaultHighWaterThreshold else ?hw),
          mKeepAliveIntervalUs := ?p\<rparr>"
    by (simp add: updateCacheParamsFromString_def sscanf_config_string Let_def)
  have le: "?hw \<le> ?lw \<longleftrightarrow> uint ?hw \<le> uint ?lw" by (rule word_le_def)
  show ?thesis
    unfolding u spec_cache_params_def Let_def
    using lw hw p le
    by (simp add: kDefaultLowWaterThreshold_def kDefaultHighWaterThreshold_def)
qed

section \<open>Invariants of the engine: lemmas\<close>



lemma unat_le_uint:
  "unat (a :: 'a::len word) \<le> unat (b :: 'a word) \<longleftrightarrow> uint a \<le> uint b"
  by (simp only: uint_nat of_nat_le_iff)

lemma unat_lt_uint:
  "unat (a :: 'a::len word) < unat (b :: 'a word) \<longleftrightarrow> uint a < uint b"
  by (simp only: uint_nat of_nat_less_iff)


lemma window_ok_lap [simp]: "window_ok (s\<lparr>mLastAccessPos := x\<rparr>) = window_ok s"
  by (simp add: window_ok_def)

lemma exhausted_lap [simp]: "exhausted (s\<lparr>mLastAccessPos := x\<rparr>) = exhausted s"
  by (simp add: exhausted_def)



lemma restart_exhausted:
  "exhausted s \<Longrightarrow> restartPrefetcherIfNecessary_l i f s = s"
  by (simp add: restartPrefetcherIfNecessary_l_def exhausted_def)



subsection \<open>readInternal up to its seek\<close>




subsection \<open>readInternal after its seek\<close>



subsection \<open>readInternal on the example states\<close>

lemmas ex_eval = readInternal_def restartPrefetcherIfNecessary_l_def seekInternal_l_def
  releaseFromStart_def copy_def memcpy_from_def totalSize_def Let_def
  ex_engine_def ex_cache_def ex_page_def kPadding_def
  OK_def ERROR_END_OF_STREAM_def EAGAIN_def kMaxNumRetries_def
  kDefaultHighWaterThreshold_def word_sless_alt word_sle_eq word_le_def word_less_def





section \<open>The prefetcher: lemmas\<close>

lemma ex_small_eq:
  "ex_small = ex_new\<lparr>mHighwaterThresholdBytes := 65536, mLowwaterThresholdBytes := 0,
                      mKeepAliveIntervalUs := 1000000\<rparr>"
  by (simp add: ex_small_def ex_new_def NuCachedSource2_new_def
      updateCacheParamsFromSystemProperty_def updateCacheParamsFromString_def scan_eval
      Let_def word_sle_eq word_le_def kDefaultHighWaterThreshold_def kDefaultLowWaterThreshold_def)

lemmas fetch_eval = onFetch_def fetchInternal_def fetch_page_def acquirePage_def appendPage_def
  releasePage_def write_buf_def totalSize_def Let_def
  restartPrefetcherIfNecessary_l_def
  ex_full_source_def ex_full_page_def ex_small_eq ex_new_def NuCachedSource2_new_def
  updateCacheParamsFromSystemProperty_def PageCache_new_def
  kPageSize_def OK_def kMaxNumRetries_def kIsHTTPBasedSource_def
  kDefaultKeepAliveIntervalUs_def
  word_sless_alt word_sle_eq word_le_def word_less_def

lemma acquirePage_total: "mTotalSize (snd (acquirePage c)) = mTotalSize c"
  by (simp add: acquirePage_def split: list.splits)

lemma unat_plus_le:
  fixes a b :: "'a::len word"
  shows "unat (a + b) \<le> unat a + unat b"
  by (simp add: unat_word_ariths)

lemma page_count_bound:
  fixes n :: "64 word"
  assumes "n \<le>s kPageSize" "\<not> n <s 0"
  shows "unat n \<le> unat kPageSize"
proof -
  from assms have "0 \<le> sint n" "sint n \<le> 65536"
    by (simp_all add: word_sle_eq word_sless_alt kPageSize_def)
  moreover from this have "uint n = sint n" by (intro uint_eq_sint)
  ultimately have "uint n \<le> uint kPageSize" by (simp add: kPageSize_def)
  then show ?thesis by (simp only: unat_le_uint)
qed

lemma fetch_page_keeps:
  "mFetching (fetch_page src s) = mFetching s"
  "mHighwaterThresholdBytes (fetch_page src s) = mHighwaterThresholdBytes s"
  by (simp_all add: fetch_page_def Let_def split: prod.splits)

lemma fetch_page_retries:
  "0 \<le>s mNumRetriesLeft s \<Longrightarrow> 0 \<le>s mNumRetriesLeft (fetch_page src s)"
  by (simp add: fetch_page_def Let_def kMaxNumRetries_def word_sle_eq split: prod.splits)

lemma fetch_page_total:
  assumes "honours_page_size src"
  shows "unat (totalSize (mCache (fetch_page src s)))
           \<le> unat (totalSize (mCache s)) + unat kPageSize"
proof -
  obtain page0 c where a: "acquirePage (mCache s) = (page0, c)"
    by (cases "acquirePage (mCache s)")
  then have tc: "mTotalSize c = mTotalSize (mCache s)"
    using acquirePage_total [of "mCache s"] by simp
  obtain n bytes where r: "src_readAt src (mCacheOffset s + totalSize c) kPageSize = (n, bytes)"
    by (cases "src_readAt src (mCacheOffset s + totalSize c) kPageSize")
  from assms r have le: "n \<le>s kPageSize"
    by (auto simp: honours_page_size_def dest: spec [of _ "mCacheOffset s + totalSize c"])
  show ?thesis
  proof (cases "n = 0 \<or> mDisconnecting s \<or> n <s 0")
    case True
    then show ?thesis
      using a r tc by (auto simp: fetch_page_def Let_def totalSize_def releasePage_def)
  next
    case False
    then have "unat n \<le> unat kPageSize" using le by (intro page_count_bound) simp_all
    moreover have "totalSize (mCache (fetch_page src s)) = mTotalSize (mCache s) + n"
      using False a r tc by (simp add: fetch_page_def Let_def totalSize_def appendPage_def)
    ultimately show ?thesis
      using unat_plus_le [of "mTotalSize (mCache s)" n] by (simp add: totalSize_def)
  qed
qed

lemma retries_decrement:
  fixes r :: "32 word"
  assumes "0 <s r"
  shows "0 \<le>s r - 1"
proof -
  from assms have pos: "0 < sint r" by (simp add: word_sless_alt)
  have "sint (r - 1) = signed_take_bit 31 (sint r - 1)"
    by (simp only: sint_word_diff) simp
  also have "\<dots> = sint r - 1"
    using pos sint_lt [of r] by (intro signed_take_bit_int_eq_self) simp_all
  finally show ?thesis using pos by (simp add: word_sle_eq)
qed

lemma fetchInternal_unfold:
  "fetchInternal src s =
     (if \<not> (mFinalStatus s = OK \<or> 0 <s mNumRetriesLeft s) then Inl Abort
      else
        (let reconnect = (mFinalStatus s \<noteq> OK);
             s1 = (if reconnect then s\<lparr>mNumRetriesLeft := mNumRetriesLeft s - 1\<rparr> else s)
         in if reconnect \<and> \<not> mSuspended s1 then
              (case src_reconnectAtOffset src (mCacheOffset s1 + totalSize (mCache s1))
                      (mQueryAndSetProxy s1) of
                 (err, q) \<Rightarrow>
                   (let s4 = update_proxy_flags q s1
                    in if mDisconnecting s4 then
                         Inr (s4\<lparr>mNumRetriesLeft := 0, mFinalStatus := ERROR_END_OF_STREAM\<rparr>)
                       else if err = ERROR_UNSUPPORTED \<or> err = - EPIPE then
                         Inr (s4\<lparr>mNumRetriesLeft := 0\<rparr>)
                       else if err \<noteq> OK then Inr s4
                       else Inr (fetch_page src s4)))
            else Inr (fetch_page src s1)))"
  unfolding fetchInternal_def update_proxy_flags_def Let_def by (rule refl)

lemma update_proxy_flags_keeps:
  "mFetching (update_proxy_flags q s) = mFetching s"
  "mHighwaterThresholdBytes (update_proxy_flags q s) = mHighwaterThresholdBytes s"
  "mCache (update_proxy_flags q s) = mCache s"
  "mNumRetriesLeft (update_proxy_flags q s) = mNumRetriesLeft s"
  by (simp_all add: update_proxy_flags_def Let_def)

lemma fetch_inv_page:
  assumes "honours_page_size src" "mFetching t = mFetching s"
    "mHighwaterThresholdBytes t = mHighwaterThresholdBytes s"
    "mCache t = mCache s" "0 \<le>s mNumRetriesLeft t"
  shows "fetch_inv s (fetch_page src t)"
  using assms fetch_page_total [of src t] fetch_page_retries [of t src]
  by (simp add: fetch_inv_def fetch_page_keeps)

lemma fetchInternal_ok:
  assumes chk: "mFinalStatus s = OK \<or> 0 <s mNumRetriesLeft s"
    and nonneg: "0 \<le>s mNumRetriesLeft s"
    and hon: "honours_page_size src"
  shows "\<exists>s3. fetchInternal src s = Inr s3 \<and> fetch_inv s s3"
proof (cases "mFinalStatus s = OK")
  case True
  then have "fetchInternal src s = Inr (fetch_page src s)"
    by (simp add: fetchInternal_unfold)
  moreover have "fetch_inv s (fetch_page src s)"
    using hon nonneg by (intro fetch_inv_page) simp_all
  ultimately show ?thesis by blast
next
  case False
  with chk have pos: "0 <s mNumRetriesLeft s" by simp
  define s1 where "s1 = s\<lparr>mNumRetriesLeft := mNumRetriesLeft s - 1\<rparr>"
  have r1: "0 \<le>s mNumRetriesLeft s1" using retries_decrement [OF pos] by (simp add: s1_def)
  show ?thesis
  proof (cases "mSuspended s")
    case True
    with False pos have "fetchInternal src s = Inr (fetch_page src s1)"
      by (simp add: fetchInternal_unfold s1_def)
    moreover have "fetch_inv s (fetch_page src s1)"
      using hon r1 by (intro fetch_inv_page) (simp_all add: s1_def)
    ultimately show ?thesis by blast
  next
    case awake: False
    obtain err q where rc: "src_reconnectAtOffset src (mCacheOffset s1 + totalSize (mCache s1))
                              (mQueryAndSetProxy s1) = (err, q)"
      by (cases "src_reconnectAtOffset src (mCacheOffset s1 + totalSize (mCache s1))
                   (mQueryAndSetProxy s1)")
    define s4 where "s4 = update_proxy_flags q s1"
    have keep: "mFetching s4 = mFetching s" "mHighwaterThresholdBytes s4 = mHighwaterThresholdBytes s"
      "mCache s4 = mCache s" "mNumRetriesLeft s4 = mNumRetriesLeft s1"
      by (simp_all add: s4_def update_proxy_flags_keeps s1_def)
    have run: "fetchInternal src s
        = (if mDisconnecting s4
           then Inr (s4\<lparr>mNumRetriesLeft := 0, mFinalStatus := ERROR_END_OF_STREAM\<rparr>)
           else if err = ERROR_UNSUPPORTED \<or> err = - EPIPE then Inr (s4\<lparr>mNumRetriesLeft := 0\<rparr>)
           else if err \<noteq> OK then Inr s4
           else Inr (fetch_page src s4))"
    proof -
      have "\<not> mSuspended s1" using awake by (simp add: s1_def)
      with False pos rc show ?thesis
        by (simp add: fetchInternal_unfold Let_def s1_def [symmetric] s4_def [symmetric])
    qed
    have a: "fetch_inv s (s4\<lparr>mNumRetriesLeft := 0, mFinalStatus := ERROR_END_OF_STREAM\<rparr>)"
      and b: "fetch_inv s (s4\<lparr>mNumRetriesLeft := 0\<rparr>)"
      and c: "fetch_inv s s4"
      using keep r1 by (simp_all add: fetch_inv_def)
    have d: "fetch_inv s (fetch_page src s4)"
      using hon keep r1 by (intro fetch_inv_page) simp_all
    from run a b c d show ?thesis by auto
  qed
qed

subsection \<open>One activation of the fill phase\<close>

lemma onFetch_unfold:
  "onFetch src now1 now2 s =
     (let s2 = onFetch_begin s;
          keepAlive = (\<not> mFetching s2 \<and> mFinalStatus s2 = OK
                       \<and> 0 <s mKeepAliveIntervalUs s2
                       \<and> mLastFetchTimeUs s2 + mKeepAliveIntervalUs s2 \<le>s now1)
      in case (if mFetching s2 \<or> keepAlive then
                 (case fetchInternal src s2 of
                    Inl e \<Rightarrow> Inl e
                  | Inr s3 \<Rightarrow> onFetch_after src now2 s3)
               else Inr (restartPrefetcherIfNecessary_l False False s2, [])) of
           Inl e \<Rightarrow> Inl e
         | Inr (s6, evs) \<Rightarrow> onFetch_end s6 evs)"
  unfolding onFetch_def onFetch_begin_def onFetch_after_def onFetch_end_def Let_def
  by (rule refl)

lemma onFetch_begin_keeps:
  "mCache (onFetch_begin s) = mCache s"
  "mHighwaterThresholdBytes (onFetch_begin s) = mHighwaterThresholdBytes s"
  "mNumRetriesLeft (onFetch_begin s) = mNumRetriesLeft s"
  "mFinalStatus (onFetch_begin s) = mFinalStatus s"
  "mFetching (onFetch_begin s) = (mFetching s \<and> \<not> exhausted s)"
  by (simp_all add: onFetch_begin_def Let_def exhausted_def)

lemma onFetch_after_ok:
  "\<exists>s5 evs. onFetch_after src now2 s3 = Inr (s5, evs)
      \<and> mCache s5 = mCache s3
      \<and> mHighwaterThresholdBytes s5 = mHighwaterThresholdBytes s3
      \<and> mNumRetriesLeft s5 = mNumRetriesLeft s3
      \<and> mFetching s5
          = (mFetching s3 \<and> \<not> mHighwaterThresholdBytes s3 \<le> totalSize (mCache s3))"
  by (auto simp: onFetch_after_def Let_def)

lemma onFetch_end_ok:
  "\<exists>s7 evs'. onFetch_end s6 evs = Inr (s7, evs')
      \<and> mCache s7 = mCache s6
      \<and> mHighwaterThresholdBytes s7 = mHighwaterThresholdBytes s6
      \<and> mNumRetriesLeft s7 = mNumRetriesLeft s6
      \<and> mFetching s7 = mFetching s6"
  by (simp add: onFetch_end_def Let_def)

lemma onFetch_fill_step:
  assumes fetching: "mFetching s"
    and below: "totalSize (mCache s) < mHighwaterThresholdBytes s"
    and nonneg: "0 \<le>s mNumRetriesLeft s"
    and hon: "honours_page_size src"
  shows "\<exists>s' evs. onFetch src now1 now2 s = Inr (s', evs) \<and> fill_inv s'
           \<and> mHighwaterThresholdBytes s' = mHighwaterThresholdBytes s"
proof -
  define s2 where "s2 = onFetch_begin s"
  note k2 = onFetch_begin_keeps [of s, folded s2_def]
  from below have ub: "unat (totalSize (mCache s)) < unat (mHighwaterThresholdBytes s)"
    by (simp add: word_less_nat_alt)
  show ?thesis
  proof (cases "exhausted s")
    case True
    then have nf: "\<not> mFetching s2" and ne: "mFinalStatus s2 \<noteq> OK" and ex2: "exhausted s2"
      using k2 by (simp_all add: exhausted_def)
    have r: "restartPrefetcherIfNecessary_l False False s2 = s2"
      using ex2 by (rule restart_exhausted)
    from onFetch_end_ok [of s2 "[]"] obtain s7 evs' where
      e: "onFetch_end s2 [] = Inr (s7, evs')" "mCache s7 = mCache s2"
         "mHighwaterThresholdBytes s7 = mHighwaterThresholdBytes s2"
         "mNumRetriesLeft s7 = mNumRetriesLeft s2" "mFetching s7 = mFetching s2"
      by blast
    have "onFetch src now1 now2 s = Inr (s7, evs')"
      using nf ne r e(1) by (simp add: onFetch_unfold Let_def s2_def [symmetric])
    moreover have "fill_inv s7"
      using e nf k2 ub nonneg by (simp add: fill_inv_def)
    ultimately show ?thesis using e k2 by auto
  next
    case False
    then have f2: "mFetching s2" using fetching k2 by simp
    from False nonneg have "mFinalStatus s = OK \<or> 0 <s mNumRetriesLeft s"
      by (auto simp: exhausted_def word_sless_eq)
    then have chk: "mFinalStatus s2 = OK \<or> 0 <s mNumRetriesLeft s2" using k2 by simp
    from nonneg k2 have nn2: "0 \<le>s mNumRetriesLeft s2" by simp
    from fetchInternal_ok [OF chk nn2 hon] obtain s3 where
      fi: "fetchInternal src s2 = Inr s3" and inv: "fetch_inv s2 s3" by blast
    from inv k2 have f3: "mFetching s3" and h3: "mHighwaterThresholdBytes s3 = mHighwaterThresholdBytes s"
      and t3: "unat (totalSize (mCache s3)) \<le> unat (totalSize (mCache s)) + unat kPageSize"
      and r3: "0 \<le>s mNumRetriesLeft s3"
      using f2 by (simp_all add: fetch_inv_def)
    from onFetch_after_ok [of src now2 s3] obtain s5 evs where
      a: "onFetch_after src now2 s3 = Inr (s5, evs)" "mCache s5 = mCache s3"
         "mHighwaterThresholdBytes s5 = mHighwaterThresholdBytes s3"
         "mNumRetriesLeft s5 = mNumRetriesLeft s3"
         "mFetching s5 = (mFetching s3 \<and> \<not> mHighwaterThresholdBytes s3 \<le> totalSize (mCache s3))"
      by blast
    from onFetch_end_ok [of s5 evs] obtain s7 evs' where
      e: "onFetch_end s5 evs = Inr (s7, evs')" "mCache s7 = mCache s5"
         "mHighwaterThresholdBytes s7 = mHighwaterThresholdBytes s5"
         "mNumRetriesLeft s7 = mNumRetriesLeft s5" "mFetching s7 = mFetching s5"
      by blast
    have "onFetch src now1 now2 s = Inr (s7, evs')"
      using f2 fi a(1) e(1) by (simp add: onFetch_unfold Let_def s2_def [symmetric])
    moreover have "fill_inv s7"
      using e a h3 t3 r3 ub by (auto simp: fill_inv_def not_le)
    ultimately show ?thesis using e a h3 by auto
  qed
qed

lemma fill_run_inv:
  "fill_inv s \<Longrightarrow> \<forall>a \<in> set acts. honours_page_size (fst a) \<Longrightarrow>
   \<exists>s'. fill_run acts s = Inr s' \<and> fill_inv s'
      \<and> mHighwaterThresholdBytes s' = mHighwaterThresholdBytes s"
proof (induction acts arbitrary: s)
  case Nil
  then show ?case by simp
next
  case (Cons a acts)
  obtain src now1 now2 where a: "a = (src, now1, now2)" by (cases a)
  show ?case
  proof (cases "mFetching s")
    case False
    with Cons.prems(1) a show ?thesis by simp
  next
    case True
    with Cons.prems(1) have below: "totalSize (mCache s) < mHighwaterThresholdBytes s"
      and nonneg: "0 \<le>s mNumRetriesLeft s"
      by (simp_all add: fill_inv_def)
    from Cons.prems(2) a have hon: "honours_page_size src" by simp
    from onFetch_fill_step [OF True below nonneg hon, of now1 now2]
    obtain s1 evs where step: "onFetch src now1 now2 s = Inr (s1, evs)" and inv1: "fill_inv s1"
      and h1: "mHighwaterThresholdBytes s1 = mHighwaterThresholdBytes s"
      by blast
    from Cons.prems(2) have "\<forall>a \<in> set acts. honours_page_size (fst a)" by simp
    from Cons.IH [OF inv1 this] obtain s' where
      "fill_run acts s1 = Inr s'" "fill_inv s'"
      "mHighwaterThresholdBytes s' = mHighwaterThresholdBytes s1"
      by blast
    with True a step h1 show ?thesis by simp
  qed
qed

subsection \<open>The prefetcher on the example states\<close>

lemma ex_fill_three:
  "fill_run [(ex_http_source, 0, 0), (ex_http_source, 1, 1), (ex_http_source, 2, 2)] ex_new
     = Inr (ex_new\<lparr>mCache := \<lparr>mPageSize = kPageSize, mTotalSize = 12,
                                mActivePages = [ex_page [9, 9, 9, 9], ex_page [9, 9, 9, 9],
                                                ex_page [9, 9, 9, 9]],
                                mFreePages = []\<rparr>,
                    mLastFetchTimeUs := 2\<rparr>)"
  by (simp add: fetch_eval ex_http_source_def ex_page_def kDefaultHighWaterThreshold_def)

section \<open>Seeking\<close>

text \<open>
  Claim C3. \<^verbatim>\<open>seekInternal_l(offset)\<close> sets \<open>mLastAccessPos\<close> to \<open>offset\<close>. When
  \<open>mCacheOffset \<le> offset \<le> mCacheOffset + totalSize\<close> (the upper bound included) it
  changes nothing else and returns. Otherwise it sets \<open>mCacheOffset\<close> to \<open>offset\<close>,
  releases every byte of the cache (the total size becomes 0 and no cached byte is
  left), sets \<open>mNumRetriesLeft\<close> to \<open>kMaxNumRetries\<close> and \<open>mFetching\<close> to true. The
  bounds are read as integers; the cache is well formed and the end of the window does
  not overflow \<^verbatim>\<open>off64_t\<close>.
\<close>

theorem seekInternal_l_spec:
  assumes wf: "cache_wf (mCache s)"
    and win: "sint (mCacheOffset s) + uint (totalSize (mCache s)) < 2 ^ 63"
  shows "(sint (mCacheOffset s) \<le> sint offset
            \<and> sint offset \<le> sint (mCacheOffset s) + uint (totalSize (mCache s))
          \<longrightarrow> seekInternal_l offset s = Inr (s\<lparr>mLastAccessPos := offset\<rparr>))
       \<and> (\<not> (sint (mCacheOffset s) \<le> sint offset
               \<and> sint offset \<le> sint (mCacheOffset s) + uint (totalSize (mCache s)))
          \<longrightarrow> (\<exists>c. seekInternal_l offset s
                       = Inr (s\<lparr>mLastAccessPos := offset, mCacheOffset := offset, mCache := c,
                                mNumRetriesLeft := kMaxNumRetries, mFetching := True\<rparr>)
                  \<and> totalSize c = 0 \<and> pages_bytes (mActivePages c) = []))"
proof -
  have cond: "(mCacheOffset s \<le>s offset \<and> offset \<le>s mCacheOffset s + totalSize (mCache s))
      \<longleftrightarrow> (sint (mCacheOffset s) \<le> sint offset
            \<and> sint offset \<le> sint (mCacheOffset s) + uint (totalSize (mCache s)))"
    using sint_plus_uint [OF win] by (simp add: word_sle_eq)
  obtain released c where r: "releaseFromStart (totalSize (mCache s)) (mCache s) = (released, c)"
    by (cases "releaseFromStart (totalSize (mCache s)) (mCache s)")
  from releaseFromStart_all [OF wf _ r [unfolded totalSize_def]]
  have all: "released = mTotalSize (mCache s)" "mTotalSize c = 0" "pages_bytes (mActivePages c) = []"
    by simp_all
  show ?thesis
  proof (intro conjI impI)
    assume "sint (mCacheOffset s) \<le> sint offset
            \<and> sint offset \<le> sint (mCacheOffset s) + uint (totalSize (mCache s))"
    with cond show "seekInternal_l offset s = Inr (s\<lparr>mLastAccessPos := offset\<rparr>)"
      by (simp add: seekInternal_l_def)
  next
    assume "\<not> (sint (mCacheOffset s) \<le> sint offset
               \<and> sint offset \<le> sint (mCacheOffset s) + uint (totalSize (mCache s)))"
    with cond have "\<not> (mCacheOffset s \<le>s offset \<and> offset \<le>s mCacheOffset s + totalSize (mCache s))"
      by simp
    with r all show "\<exists>c. seekInternal_l offset s
                       = Inr (s\<lparr>mLastAccessPos := offset, mCacheOffset := offset, mCache := c,
                                mNumRetriesLeft := kMaxNumRetries, mFetching := True\<rparr>)
                  \<and> totalSize c = 0 \<and> pages_bytes (mActivePages c) = []"
      by (intro exI [of _ c]) (auto simp: seekInternal_l_def Let_def totalSize_def)
  qed
qed

theorem seekInternal_l_spec_witness:
  "cache_wf (mCache ex_engine)
   \<and> sint (mCacheOffset ex_engine) + uint (totalSize (mCache ex_engine)) < 2 ^ 63
   \<and> seekInternal_l 107 ex_engine = Inr (ex_engine\<lparr>mLastAccessPos := 107\<rparr>)
   \<and> (\<exists>c. seekInternal_l 108 ex_engine
            = Inr (ex_engine\<lparr>mLastAccessPos := 108, mCacheOffset := 108, mCache := c,
                     mNumRetriesLeft := kMaxNumRetries, mFetching := True\<rparr>)
          \<and> totalSize c = 0 \<and> pages_bytes (mActivePages c) = [])"
proof -
  note th = seekInternal_l_spec [OF ex_engine_wf ex_engine_window]
  have "seekInternal_l 107 ex_engine = Inr (ex_engine\<lparr>mLastAccessPos := 107\<rparr>)"
    using th [of 107] by (simp add: ex_engine_def ex_cache_def totalSize_def)
  moreover have "\<exists>c. seekInternal_l 108 ex_engine
            = Inr (ex_engine\<lparr>mLastAccessPos := 108, mCacheOffset := 108, mCache := c,
                     mNumRetriesLeft := kMaxNumRetries, mFetching := True\<rparr>)
          \<and> totalSize c = 0 \<and> pages_bytes (mActivePages c) = []"
    using th [of 108] by (simp add: ex_engine_def ex_cache_def totalSize_def)
  ultimately show ?thesis using ex_engine_wf ex_engine_window by blast
qed

text \<open>
  Claim C9. Seeking twice to the same offset leaves the engine as seeking once does:
  running \<^verbatim>\<open>seekInternal_l(x)\<close> on the state a first \<^verbatim>\<open>seekInternal_l(x)\<close> returned
  gives that state again (and a first call that aborts stays aborted). This holds for
  every offset and every state.
\<close>

theorem seekInternal_l_idempotent:
  "(case seekInternal_l x s of Inl e \<Rightarrow> Inl e | Inr s' \<Rightarrow> seekInternal_l x s')
     = seekInternal_l x s"
  by (auto simp: seekInternal_l_def Let_def releaseFromStart_def totalSize_def
           split: prod.splits sum.splits)

theorem seekInternal_l_idempotent_witness:
  "(case seekInternal_l 5000 ex_engine of Inl e \<Rightarrow> Inl e | Inr s' \<Rightarrow> seekInternal_l 5000 s')
     = seekInternal_l 5000 ex_engine
   \<and> seekInternal_l 5000 ex_engine
     = Inr (ex_engine\<lparr>mLastAccessPos := 5000, mCacheOffset := 5000,
              mCache := \<lparr>mPageSize = kPageSize, mTotalSize = 0, mActivePages = [],
                          mFreePages = [(ex_page [1, 2, 3, 4])\<lparr>mSize := 0\<rparr>,
                                        (ex_page [5, 6, 7])\<lparr>mSize := 0\<rparr>]\<rparr>\<rparr>)"
  using seekInternal_l_idempotent [of 5000 ex_engine]
  by (simp add: seekInternal_l_def ex_engine_def ex_cache_def ex_page_def
      releaseFromStart_def totalSize_def Let_def)

section \<open>Reading from the cache\<close>

text \<open>
  Claim C2. A call \<^verbatim>\<open>readAt(offset, data, size)\<close> made while \<open>mDisconnecting\<close> is false,
  with \<open>mCacheOffset \<le> offset\<close> and \<open>offset + size \<le> mCacheOffset + totalSize\<close>, returns
  \<open>size\<close>; \<^verbatim>\<open>data\<close> receives the cached bytes of the logical offsets
  \<open>[offset, offset + size)\<close>, that is the bytes of the cache from position
  \<open>offset - mCacheOffset\<close> on, exactly \<open>size\<close> of them; \<open>mLastAccessPos\<close> becomes
  \<open>offset + size\<close> (which does not wrap) and no other field changes; nothing is
  posted. The bounds are read as integers; the cache is well formed and the window lies
  in the non-negative offsets.
\<close>

theorem readAt_fast_path:
  assumes conn: "\<not> mDisconnecting s"
    and wf: "cache_wf (mCache s)"
    and win: "window_ok s"
    and lo: "sint (mCacheOffset s) \<le> sint offset"
    and hi: "sint offset + uint sz \<le> sint (mCacheOffset s) + uint (totalSize (mCache s))"
  shows "readAt offset sz s
          = Inr (Some sz,
                 take (unat sz) (drop (nat (sint offset - sint (mCacheOffset s))) (cached_bytes s)),
                 s\<lparr>mLastAccessPos := offset + sz\<rparr>, [])
       \<and> length (take (unat sz)
                   (drop (nat (sint offset - sint (mCacheOffset s))) (cached_bytes s)))
           = unat sz
       \<and> sint (offset + sz) = sint offset + uint sz"
proof -
  let ?co = "mCacheOffset s" and ?tot = "mTotalSize (mCache s)"
  from win have co0: "0 \<le> sint ?co" and end63: "sint ?co + uint ?tot < 2 ^ 63"
    by (simp_all add: window_ok_def totalSize_def)
  from co0 lo have off0: "0 \<le> sint offset" by simp
  have uco: "uint ?co = sint ?co" using co0 by (rule uint_eq_sint)
  have uoff: "uint offset = sint offset" using off0 by (rule uint_eq_sint)
  from hi end63 have sum63: "sint offset + uint sz < 2 ^ 63" by (simp add: totalSize_def)
  then have s1: "sint (offset + sz) = sint offset + uint sz" by (rule sint_plus_uint)
  have u1: "uint (offset + sz) = uint offset + uint sz"
    using sum63 uoff by (intro uint_plus_nowrap) simp
  have u2: "uint (?co + ?tot) = uint ?co + uint ?tot"
    using end63 uco by (intro uint_plus_nowrap) simp
  have c1: "?co \<le>s offset" using lo by (simp add: word_sle_eq)
  have c2: "offset + sz \<le> ?co + ?tot"
    using hi u1 u2 uoff uco by (simp add: word_le_def totalSize_def)
  define delta where "delta = offset - ?co"
  have ud: "uint delta = sint offset - sint ?co"
    unfolding delta_def using lo by (rule uint_diff_sint_pos)
  then have nd: "unat delta = nat (sint offset - sint ?co)"
    by (simp only: unat_eq_nat_uint)
  have "uint delta + uint sz \<le> uint ?tot" using ud hi by (simp add: totalSize_def)
  then have "int (unat delta) + int (unat sz) \<le> int (unat ?tot)"
    by (simp only: uint_nat)
  then have fits: "unat delta + unat sz \<le> unat ?tot" by linarith
  with wf have "copy delta sz (mCache s)
      = Inr (take (unat sz) (drop (unat delta) (pages_bytes (mActivePages (mCache s)))))"
    by (intro copy_correct) (simp_all add: cache_wf_def)
  with conn c1 c2 nd have run: "readAt offset sz s
          = Inr (Some sz,
                 take (unat sz) (drop (nat (sint offset - sint ?co)) (cached_bytes s)),
                 s\<lparr>mLastAccessPos := offset + sz\<rparr>, [])"
    by (simp add: readAt_def Let_def totalSize_def delta_def cached_bytes_def)
  from wf have "length (cached_bytes s) = unat ?tot"
    by (simp add: cached_bytes_def cache_wf_def length_pages_bytes)
  with fits nd have "length (take (unat sz)
                   (drop (nat (sint offset - sint ?co)) (cached_bytes s))) = unat sz"
    by simp
  with run s1 show ?thesis by simp
qed

theorem readAt_fast_path_witness:
  "\<not> mDisconnecting ex_engine \<and> cache_wf (mCache ex_engine) \<and> window_ok ex_engine
   \<and> sint (mCacheOffset ex_engine) \<le> sint (102 :: off64_t)
   \<and> sint (102 :: off64_t) + uint (4 :: size_t)
        \<le> sint (mCacheOffset ex_engine) + uint (totalSize (mCache ex_engine))
   \<and> readAt 102 4 ex_engine = Inr (Some 4, [3, 4, 5, 6], ex_engine\<lparr>mLastAccessPos := 106\<rparr>, [])"
proof -
  have h: "\<not> mDisconnecting ex_engine" "window_ok ex_engine"
    "sint (mCacheOffset ex_engine) \<le> sint (102 :: off64_t)"
    "sint (102 :: off64_t) + uint (4 :: size_t)
        \<le> sint (mCacheOffset ex_engine) + uint (totalSize (mCache ex_engine))"
    by (simp_all add: ex_engine_def ex_cache_def window_ok_def totalSize_def)
  have b: "cached_bytes ex_engine = [1, 2, 3, 4, 5, 6, 7]"
    by (simp add: cached_bytes_def ex_engine_def ex_cache_bytes)
  have m: "mCacheOffset ex_engine = 100" by (simp add: ex_engine_def)
  from readAt_fast_path [OF h(1) ex_engine_wf h(2) h(3) h(4)]
  have "readAt 102 4 ex_engine = Inr (Some 4, [3, 4, 5, 6], ex_engine\<lparr>mLastAccessPos := 106\<rparr>, [])"
    by (simp add: b m)
  with h ex_engine_wf show ?thesis by simp
qed

section \<open>Data remaining\<close>

text \<open>
  Claim C7. \<^verbatim>\<open>approxDataRemaining_l\<close> returns
  \<open>max 0 (mCacheOffset + totalSize - mLastAccessPos)\<close>, and the status it writes is
  \<open>mFinalStatus\<close>, except that any status other than \<open>OK\<close> held while
  \<open>mNumRetriesLeft > 0\<close> is written as \<open>OK\<close>. The difference is read as an integer; the
  end of the window does not overflow \<^verbatim>\<open>off64_t\<close>.
\<close>

theorem approxDataRemaining_l_spec:
  assumes win: "sint (mCacheOffset s) + uint (totalSize (mCache s)) < 2 ^ 63"
  shows "uint (fst (approxDataRemaining_l s))
           = max 0 (sint (mCacheOffset s) + uint (totalSize (mCache s)) - sint (mLastAccessPos s))
       \<and> snd (approxDataRemaining_l s)
           = (if mFinalStatus s \<noteq> OK \<and> 0 < sint (mNumRetriesLeft s) then OK else mFinalStatus s)"
proof -
  let ?last = "mCacheOffset s + totalSize (mCache s)"
  have sl: "sint ?last = sint (mCacheOffset s) + uint (totalSize (mCache s))"
    using win by (rule sint_plus_uint)
  have r: "0 <s mNumRetriesLeft s \<longleftrightarrow> 0 < sint (mNumRetriesLeft s)"
    by (simp add: word_sless_alt)
  show ?thesis
  proof (cases "mLastAccessPos s <s ?last")
    case True
    then have lt: "sint (mLastAccessPos s) < sint ?last" by (simp add: word_sless_alt)
    then have "uint (?last - mLastAccessPos s) = sint ?last - sint (mLastAccessPos s)"
      by (intro uint_diff_sint_pos) simp
    with True lt sl r show ?thesis
      by (simp add: approxDataRemaining_l_def Let_def)
  next
    case False
    then have "sint ?last \<le> sint (mLastAccessPos s)" by (simp add: word_sless_alt)
    with False sl r show ?thesis
      by (simp add: approxDataRemaining_l_def Let_def)
  qed
qed

theorem approxDataRemaining_l_spec_witness:
  "sint (mCacheOffset ex_engine) + uint (totalSize (mCache ex_engine)) < 2 ^ 63
   \<and> approxDataRemaining_l (ex_engine\<lparr>mLastAccessPos := 102\<rparr>) = (5, OK)
   \<and> approxDataRemaining_l (ex_engine\<lparr>mLastAccessPos := 200\<rparr>) = (0, OK)
   \<and> approxDataRemaining_l (ex_engine\<lparr>mFinalStatus := - EAGAIN, mNumRetriesLeft := 3\<rparr>) = (7, OK)
   \<and> approxDataRemaining_l (ex_engine\<lparr>mFinalStatus := ERROR_END_OF_STREAM, mNumRetriesLeft := 0\<rparr>)
       = (7, ERROR_END_OF_STREAM)"
proof -
  have "uint (fst (approxDataRemaining_l (ex_engine\<lparr>mLastAccessPos := 102\<rparr>))) = 5"
    using approxDataRemaining_l_spec [of "ex_engine\<lparr>mLastAccessPos := 102\<rparr>"]
    by (simp add: ex_engine_def ex_cache_def totalSize_def)
  then show ?thesis
    using ex_engine_window
    by (simp add: approxDataRemaining_l_def ex_engine_def ex_cache_def totalSize_def Let_def
        OK_def EAGAIN_def ERROR_END_OF_STREAM_def kMaxNumRetries_def word_sless_alt)
qed

section \<open>Restarting the prefetcher\<close>

text \<open>
  Claim C6, as stated: whenever \<^verbatim>\<open>restartPrefetcherIfNecessary_l(false, false)\<close> runs
  with \<open>mFetching\<close> false and retries not exhausted, and
  \<open>mLastAccessPos - mCacheOffset\<close> is at least 1 MiB, \<open>mFetching\<close> becomes true. It does
  not: the engine \<open>ex_ahead\<close> has the reader exactly 1 MiB into a window of 6 MiB, so
  5 MiB lie ahead of the reader, which is not below the low-water mark, and the function
  returns before the gray-area test, with \<open>mFetching\<close> still false.
\<close>

theorem restart_without_low_water_counterexample:
  "\<not> mFetching ex_ahead \<and> \<not> exhausted ex_ahead
   \<and> \<not> mLastAccessPos ex_ahead - mCacheOffset ex_ahead < kGrayArea
   \<and> \<not> mFetching (restartPrefetcherIfNecessary_l False False ex_ahead)"
  by (simp add: restartPrefetcherIfNecessary_l_def ex_ahead_def ex_engine_def exhausted_def
      kGrayArea_def totalSize_def kDefaultLowWaterThreshold_def Let_def)

text \<open>
  Claim C6, amended. Let \<^verbatim>\<open>restartPrefetcherIfNecessary_l(false, false)\<close> run with
  \<open>mFetching\<close> false and retries not exhausted, all differences computed in
  \<^verbatim>\<open>size_t\<close>. If \<open>mCacheOffset + totalSize - mLastAccessPos\<close> is at least the low-water
  mark, or \<open>mLastAccessPos - mCacheOffset\<close> is below 1 MiB, the state is unchanged.
  Otherwise \<^verbatim>\<open>releaseFromStart\<close> runs with the budget
  \<open>mLastAccessPos - mCacheOffset - 1 MiB\<close> and releases at most that many bytes;
  \<open>mCacheOffset\<close> grows by exactly the released amount, so that
  \<open>mCacheOffset + totalSize\<close> is unchanged; \<open>mFetching\<close> becomes true; and on a well-formed
  cache the released bytes are a prefix of the cached bytes.
\<close>

theorem restartPrefetcherIfNecessary_l_idle:
  assumes idle: "\<not> mFetching s" and alive: "\<not> exhausted s"
  shows "(mLowwaterThresholdBytes s \<le> mCacheOffset s + totalSize (mCache s) - mLastAccessPos s
            \<or> mLastAccessPos s - mCacheOffset s < kGrayArea
          \<longrightarrow> restartPrefetcherIfNecessary_l False False s = s)
       \<and> (\<not> (mLowwaterThresholdBytes s \<le> mCacheOffset s + totalSize (mCache s) - mLastAccessPos s
               \<or> mLastAccessPos s - mCacheOffset s < kGrayArea)
          \<longrightarrow> (\<exists>released c.
                 releaseFromStart (mLastAccessPos s - mCacheOffset s - kGrayArea) (mCache s)
                   = (released, c)
               \<and> restartPrefetcherIfNecessary_l False False s
                   = s\<lparr>mCache := c, mCacheOffset := mCacheOffset s + released, mFetching := True\<rparr>
               \<and> unat released \<le> unat (mLastAccessPos s - mCacheOffset s) - unat kGrayArea
               \<and> mCacheOffset s + released + totalSize c = mCacheOffset s + totalSize (mCache s)
               \<and> (cache_wf (mCache s)
                    \<longrightarrow> cache_wf c
                      \<and> pages_bytes (mActivePages c)
                          = drop (unat released) (pages_bytes (mActivePages (mCache s))))))"
proof (intro conjI impI)
  assume "mLowwaterThresholdBytes s \<le> mCacheOffset s + totalSize (mCache s) - mLastAccessPos s
            \<or> mLastAccessPos s - mCacheOffset s < kGrayArea"
  then show "restartPrefetcherIfNecessary_l False False s = s"
    by (auto simp: restartPrefetcherIfNecessary_l_def Let_def)
next
  let ?mb = "mLastAccessPos s - mCacheOffset s"
  assume n: "\<not> (mLowwaterThresholdBytes s \<le> mCacheOffset s + totalSize (mCache s) - mLastAccessPos s
               \<or> ?mb < kGrayArea)"
  obtain released c where r: "releaseFromStart (?mb - kGrayArea) (mCache s) = (released, c)"
    by (cases "releaseFromStart (?mb - kGrayArea) (mCache s)")
  from n have "kGrayArea \<le> ?mb" by (simp add: not_less)
  then have sub: "unat (?mb - kGrayArea) = unat ?mb - unat kGrayArea"
    by (simp add: unat_sub word_le_nat_alt)
  have 1: "restartPrefetcherIfNecessary_l False False s
             = s\<lparr>mCache := c, mCacheOffset := mCacheOffset s + released, mFetching := True\<rparr>"
    using idle alive n r by (auto simp: restartPrefetcherIfNecessary_l_def Let_def exhausted_def)
  have 2: "unat released \<le> unat ?mb - unat kGrayArea"
    using releaseFromStart_le [OF r] sub by simp
  have "totalSize c = totalSize (mCache s) - released"
    using r by (auto simp: releaseFromStart_def totalSize_def split: prod.splits)
  then have 3: "mCacheOffset s + released + totalSize c = mCacheOffset s + totalSize (mCache s)"
    by simp
  have 4: "cache_wf (mCache s) \<longrightarrow> cache_wf c
       \<and> pages_bytes (mActivePages c) = drop (unat released) (pages_bytes (mActivePages (mCache s)))"
    using releaseFromStart_wf [OF _ r] by simp
  from r 1 2 3 4
  show "\<exists>released c.
                 releaseFromStart (?mb - kGrayArea) (mCache s) = (released, c)
               \<and> restartPrefetcherIfNecessary_l False False s
                   = s\<lparr>mCache := c, mCacheOffset := mCacheOffset s + released, mFetching := True\<rparr>
               \<and> unat released \<le> unat ?mb - unat kGrayArea
               \<and> mCacheOffset s + released + totalSize c = mCacheOffset s + totalSize (mCache s)
               \<and> (cache_wf (mCache s)
                    \<longrightarrow> cache_wf c
                      \<and> pages_bytes (mActivePages c)
                          = drop (unat released) (pages_bytes (mActivePages (mCache s))))"
    by blast
qed

theorem restartPrefetcherIfNecessary_l_idle_witness:
  "\<not> mFetching ex_ahead \<and> \<not> exhausted ex_ahead
   \<and> restartPrefetcherIfNecessary_l False False ex_ahead = ex_ahead
   \<and> \<not> mFetching ex_behind \<and> \<not> exhausted ex_behind \<and> cache_wf (mCache ex_behind)
   \<and> restartPrefetcherIfNecessary_l False False ex_behind
       = ex_behind\<lparr>mCache := \<lparr>mPageSize = kPageSize, mTotalSize = 1048579,
                                mActivePages = replicate 16 ex_full_page @ [ex_page [1, 2, 3]],
                                mFreePages = [ex_full_page\<lparr>mSize := 0\<rparr>]\<rparr>,
                    mCacheOffset := 65536, mFetching := True\<rparr>"
proof -
  have a: "\<not> mFetching ex_ahead" "\<not> exhausted ex_ahead"
    by (simp_all add: ex_ahead_def ex_engine_def exhausted_def)
  have b: "\<not> mFetching ex_behind" "\<not> exhausted ex_behind"
    by (simp_all add: ex_behind_def ex_engine_def exhausted_def)
  have "restartPrefetcherIfNecessary_l False False ex_ahead = ex_ahead"
    using restartPrefetcherIfNecessary_l_idle [OF a]
    by (simp add: ex_ahead_def ex_engine_def totalSize_def kDefaultLowWaterThreshold_def)
  moreover
  have mb: "mLastAccessPos ex_behind - mCacheOffset ex_behind - kGrayArea = 65536"
    by (simp add: ex_behind_def ex_engine_def kGrayArea_def)
  have "\<not> (mLowwaterThresholdBytes ex_behind
              \<le> mCacheOffset ex_behind + totalSize (mCache ex_behind) - mLastAccessPos ex_behind
            \<or> mLastAccessPos ex_behind - mCacheOffset ex_behind < kGrayArea)"
    by (simp add: ex_behind_def ex_engine_def totalSize_def kDefaultLowWaterThreshold_def
        kGrayArea_def)
  with restartPrefetcherIfNecessary_l_idle [OF b] obtain released c where
    rc: "releaseFromStart (mLastAccessPos ex_behind - mCacheOffset ex_behind - kGrayArea)
           (mCache ex_behind) = (released, c)"
      "restartPrefetcherIfNecessary_l False False ex_behind
         = ex_behind\<lparr>mCache := c, mCacheOffset := mCacheOffset ex_behind + released,
                      mFetching := True\<rparr>"
    by blast
  from rc(1) have "released = 65536"
    and "c = \<lparr>mPageSize = kPageSize, mTotalSize = 1048579,
              mActivePages = replicate 16 ex_full_page @ [ex_page [1, 2, 3]],
              mFreePages = [ex_full_page\<lparr>mSize := 0\<rparr>]\<rparr>"
    by (simp_all only: mb ex_behind_release prod.inject)
  with rc(2)
  have "restartPrefetcherIfNecessary_l False False ex_behind
       = ex_behind\<lparr>mCache := \<lparr>mPageSize = kPageSize, mTotalSize = 1048579,
                                mActivePages = replicate 16 ex_full_page @ [ex_page [1, 2, 3]],
                                mFreePages = [ex_full_page\<lparr>mSize := 0\<rparr>]\<rparr>,
                    mCacheOffset := 65536, mFetching := True\<rparr>"
    by (simp add: ex_behind_def ex_engine_def)
  ultimately show ?thesis using a b ex_behind_wf by simp
qed

text \<open>
  Claim C10, as stated: whenever \<^verbatim>\<open>restartPrefetcherIfNecessary_l\<close> runs with \<open>force\<close>
  true while \<open>mLastAccessPos < mCacheOffset\<close>, every active page is released and
  \<open>mCacheOffset\<close> advances by the former total size. It does not when the engine has
  ended (a final status with no retry left): the function returns before it computes
  the budget. In \<open>ex_ended\<close>, an idle engine at end of stream with 7 bytes cached from
  offset 100, \<^verbatim>\<open>readInternal(50, ...)\<close> sets \<open>mLastAccessPos\<close> to 50 and calls the
  function, which changes nothing; the cache is then emptied by the seek that follows,
  which sets \<open>mCacheOffset\<close> to 0 and not to 107.
\<close>

theorem restart_on_ended_counterexample:
  "\<not> mFetching (ex_ended\<lparr>mLastAccessPos := 50\<rparr>)
   \<and> mLastAccessPos (ex_ended\<lparr>mLastAccessPos := 50\<rparr>)
        <s mCacheOffset (ex_ended\<lparr>mLastAccessPos := 50\<rparr>)
   \<and> totalSize (mCache (ex_ended\<lparr>mLastAccessPos := 50\<rparr>)) = 7
   \<and> restartPrefetcherIfNecessary_l False True (ex_ended\<lparr>mLastAccessPos := 50\<rparr>)
       = ex_ended\<lparr>mLastAccessPos := 50\<rparr>
   \<and> mCacheOffset (restartPrefetcherIfNecessary_l False True (ex_ended\<lparr>mLastAccessPos := 50\<rparr>))
       \<noteq> 107
   \<and> readInternal 50 1 ex_ended
       = Inr (scast (- EAGAIN), [],
              ex_ended\<lparr>mLastAccessPos := 0, mCacheOffset := 0,
                        mCache := \<lparr>mPageSize = kPageSize, mTotalSize = 0, mActivePages = [],
                                    mFreePages = [(ex_page [1, 2, 3, 4])\<lparr>mSize := 0\<rparr>,
                                                  (ex_page [5, 6, 7])\<lparr>mSize := 0\<rparr>]\<rparr>,
                        mNumRetriesLeft := kMaxNumRetries, mFetching := True\<rparr>)"
  by (simp add: ex_ended_def ex_eval)

text \<open>
  Claim C10, amended. Let \<^verbatim>\<open>restartPrefetcherIfNecessary_l\<close> run with \<open>force\<close> true on an
  engine that is not fetching and has not ended (its final status is \<open>OK\<close> or it has
  retries left), with \<open>0 \<le> mLastAccessPos < mCacheOffset\<close>, a well-formed cache and a
  window in the non-negative offsets. Then the budget
  \<open>mLastAccessPos - mCacheOffset\<close> wraps around to
  \<open>2^64 - (mCacheOffset - mLastAccessPos)\<close>, which is more than \<open>2^63\<close>; every active
  page is released, the total size becomes 0, \<open>mCacheOffset\<close> advances by the whole
  former total size, and \<open>mFetching\<close> becomes true.
\<close>

theorem restartPrefetcherIfNecessary_l_force_wraps:
  assumes idle: "\<not> mFetching s" and alive: "\<not> exhausted s"
    and wf: "cache_wf (mCache s)" and win: "window_ok s"
    and pos: "0 \<le> sint (mLastAccessPos s)"
    and before: "sint (mLastAccessPos s) < sint (mCacheOffset s)"
  shows "uint (mLastAccessPos s - mCacheOffset s)
           = 2 ^ 64 - (sint (mCacheOffset s) - sint (mLastAccessPos s))
       \<and> 2 ^ 63 < uint (mLastAccessPos s - mCacheOffset s)
       \<and> (\<exists>c. restartPrefetcherIfNecessary_l ignoreLowWaterThreshold True s
                 = s\<lparr>mCache := c, mCacheOffset := mCacheOffset s + totalSize (mCache s),
                     mFetching := True\<rparr>
              \<and> mActivePages c = [] \<and> totalSize c = 0)"
proof -
  let ?mb = "mLastAccessPos s - mCacheOffset s"
  from win have co0: "0 \<le> sint (mCacheOffset s)"
    and end63: "sint (mCacheOffset s) + uint (mTotalSize (mCache s)) < 2 ^ 63"
    by (simp_all add: window_ok_def totalSize_def)
  have wrap: "uint ?mb = 2 ^ 64 - (sint (mCacheOffset s) - sint (mLastAccessPos s))"
    using before by (rule uint_diff_sint_neg)
  have "sint (mCacheOffset s) < 2 ^ 63" using sint_lt [of "mCacheOffset s"] by simp
  with wrap pos have huge: "2 ^ 63 < uint ?mb" by simp
  from end63 co0 have "uint (mTotalSize (mCache s)) < 2 ^ 63" by simp
  with huge have "uint (mTotalSize (mCache s)) < uint ?mb" by simp
  then have "int (unat (mTotalSize (mCache s))) < int (unat ?mb)" by (simp only: uint_nat)
  then have lt: "unat (mTotalSize (mCache s)) < unat ?mb" by linarith
  obtain released c where r: "releaseFromStart ?mb (mCache s) = (released, c)"
    by (cases "releaseFromStart ?mb (mCache s)")
  from releaseFromStart_all [OF wf _ r] lt
  have all: "released = mTotalSize (mCache s)" "mTotalSize c = 0" by simp_all
  from releaseFromStart_all_pages [OF wf lt r] have empty: "mActivePages c = []" .
  have "restartPrefetcherIfNecessary_l ignoreLowWaterThreshold True s
          = s\<lparr>mCache := c, mCacheOffset := mCacheOffset s + totalSize (mCache s),
              mFetching := True\<rparr>"
    using idle alive r all
    by (auto simp: restartPrefetcherIfNecessary_l_def Let_def exhausted_def totalSize_def)
  with wrap huge all empty show ?thesis by (auto simp: totalSize_def)
qed

theorem restartPrefetcherIfNecessary_l_force_wraps_witness:
  "\<not> mFetching (ex_engine\<lparr>mLastAccessPos := 50, mFetching := False\<rparr>)
   \<and> \<not> exhausted (ex_engine\<lparr>mLastAccessPos := 50, mFetching := False\<rparr>)
   \<and> cache_wf (mCache (ex_engine\<lparr>mLastAccessPos := 50, mFetching := False\<rparr>))
   \<and> window_ok (ex_engine\<lparr>mLastAccessPos := 50, mFetching := False\<rparr>)
   \<and> uint (50 - 100 :: size_t) = 2 ^ 64 - 50
   \<and> restartPrefetcherIfNecessary_l False True (ex_engine\<lparr>mLastAccessPos := 50, mFetching := False\<rparr>)
       = ex_engine\<lparr>mLastAccessPos := 50,
                   mCache := \<lparr>mPageSize = kPageSize, mTotalSize = 0, mActivePages = [],
                               mFreePages = [(ex_page [1, 2, 3, 4])\<lparr>mSize := 0\<rparr>,
                                             (ex_page [5, 6, 7])\<lparr>mSize := 0\<rparr>]\<rparr>,
                   mCacheOffset := 107, mFetching := True\<rparr>"
proof -
  let ?s = "ex_engine\<lparr>mLastAccessPos := 50, mFetching := False\<rparr>"
  have h: "\<not> mFetching ?s" "\<not> exhausted ?s" "cache_wf (mCache ?s)" "window_ok ?s"
    "0 \<le> sint (mLastAccessPos ?s)" "sint (mLastAccessPos ?s) < sint (mCacheOffset ?s)"
    using ex_engine_wf
    by (simp_all add: ex_engine_def exhausted_def window_ok_def totalSize_def ex_cache_def)
  from restartPrefetcherIfNecessary_l_force_wraps [OF h, of False]
  have "uint (mLastAccessPos ?s - mCacheOffset ?s) = 2 ^ 64 - 50"
    by (simp add: ex_engine_def)
  then have "uint (50 - 100 :: size_t) = 2 ^ 64 - 50" by (simp add: ex_engine_def)
  moreover have "restartPrefetcherIfNecessary_l False True ?s
       = ex_engine\<lparr>mLastAccessPos := 50,
                   mCache := \<lparr>mPageSize = kPageSize, mTotalSize = 0, mActivePages = [],
                               mFreePages = [(ex_page [1, 2, 3, 4])\<lparr>mSize := 0\<rparr>,
                                             (ex_page [5, 6, 7])\<lparr>mSize := 0\<rparr>]\<rparr>,
                   mCacheOffset := 107, mFetching := True\<rparr>"
    by (simp add: restartPrefetcherIfNecessary_l_def ex_engine_def ex_cache_def ex_page_def
        releaseFromStart_def totalSize_def Let_def OK_def word_less_def)
  ultimately show ?thesis using h by simp
qed

section \<open>Disconnecting\<close>

text \<open>
  Claim C4, as stated: for every engine state and every upstream source,
  \<^verbatim>\<open>disconnect()\<close> sets \<open>mDisconnecting\<close> and signals the condition, so that a caller
  blocked in \<^verbatim>\<open>readAt\<close> returns end-of-stream. It does not for a source that is not
  HTTP-based: the whole body of \<^verbatim>\<open>disconnect\<close> is under the test of
  \<open>kIsHTTPBasedSource\<close>, so with the local file \<open>ex_file_source\<close> the flag stays false,
  nothing is signalled, and a waiting reader that wakes up waits again.
\<close>

theorem disconnect_ignored_counterexample:
  "\<not> mDisconnecting (fst (disconnect ex_file_source ex_engine))
   \<and> disconnect ex_file_source ex_engine = (ex_engine, [])
   \<and> readAt_wake 0 (fst (disconnect ex_file_source ex_engine)) = None"
  by (simp add: disconnect_def ex_file_source_def ex_http_source_def ex_engine_def
      readAt_wake_def)

text \<open>
  Claim C4, amended. For every engine state: when the upstream source is HTTP-based,
  \<^verbatim>\<open>disconnect()\<close> sets \<open>mDisconnecting\<close>, changes no other field, signals the condition
  and disconnects the upstream; a caller blocked in \<^verbatim>\<open>readAt\<close> then wakes up and returns
  \<open>ERROR_END_OF_STREAM\<close> (with the result slot cleared), and so does a new call of
  \<^verbatim>\<open>readAt\<close>. When the source is not HTTP-based the call changes nothing and signals
  nothing. In both cases a second \<^verbatim>\<open>disconnect()\<close> leaves the engine state as the
  first did.
\<close>

theorem disconnect_spec:
  "(src_flags src AND kIsHTTPBasedSource \<noteq> 0 \<longrightarrow>
      disconnect src s = (s\<lparr>mDisconnecting := True\<rparr>, [Signal, SourceDisconnect])
      \<and> readAt_wake offset (fst (disconnect src s))
          = Some (scast ERROR_END_OF_STREAM, s\<lparr>mDisconnecting := True, mAsyncResult := None\<rparr>)
      \<and> readAt offset sz (fst (disconnect src s))
          = Inr (Some (scast ERROR_END_OF_STREAM), [], s\<lparr>mDisconnecting := True\<rparr>, []))
   \<and> (src_flags src AND kIsHTTPBasedSource = 0 \<longrightarrow> disconnect src s = (s, []))
   \<and> fst (disconnect src (fst (disconnect src s))) = fst (disconnect src s)"
  by (cases "mAsyncResult s") (simp_all add: disconnect_def readAt_wake_def readAt_def)

theorem disconnect_spec_witness:
  "src_flags ex_http_source AND kIsHTTPBasedSource \<noteq> 0
   \<and> disconnect ex_http_source ex_engine
       = (ex_engine\<lparr>mDisconnecting := True\<rparr>, [Signal, SourceDisconnect])
   \<and> readAt_wake 0 (ex_engine\<lparr>mDisconnecting := True\<rparr>)
       = Some (scast ERROR_END_OF_STREAM, ex_engine\<lparr>mDisconnecting := True\<rparr>)
   \<and> src_flags ex_file_source AND kIsHTTPBasedSource = 0
   \<and> disconnect ex_file_source ex_engine = (ex_engine, [])"
proof -
  have h: "src_flags ex_http_source AND kIsHTTPBasedSource \<noteq> 0"
    by (simp add: ex_http_source_def kIsHTTPBasedSource_def)
  have f: "src_flags ex_file_source AND kIsHTTPBasedSource = 0"
    by (simp add: ex_file_source_def)
  have n: "ex_engine\<lparr>mDisconnecting := True, mAsyncResult := None\<rparr>
             = ex_engine\<lparr>mDisconnecting := True\<rparr>"
    by (simp add: ex_engine_def)
  from disconnect_spec [of ex_http_source ex_engine 0 0, unfolded n] h
  have d: "disconnect ex_http_source ex_engine
          = (ex_engine\<lparr>mDisconnecting := True\<rparr>, [Signal, SourceDisconnect])"
    and w: "readAt_wake 0 (fst (disconnect ex_http_source ex_engine))
          = Some (scast ERROR_END_OF_STREAM, ex_engine\<lparr>mDisconnecting := True\<rparr>)"
    by blast+
  from w have "readAt_wake 0 (ex_engine\<lparr>mDisconnecting := True\<rparr>)
          = Some (scast ERROR_END_OF_STREAM, ex_engine\<lparr>mDisconnecting := True\<rparr>)"
    by (simp only: d fst_conv)
  with d have "disconnect ex_http_source ex_engine
          = (ex_engine\<lparr>mDisconnecting := True\<rparr>, [Signal, SourceDisconnect])"
    and "readAt_wake 0 (ex_engine\<lparr>mDisconnecting := True\<rparr>)
          = Some (scast ERROR_END_OF_STREAM, ex_engine\<lparr>mDisconnecting := True\<rparr>)"
    by simp_all
  moreover from disconnect_spec [of ex_file_source ex_engine 0 0] f
  have "disconnect ex_file_source ex_engine = (ex_engine, [])" by simp
  ultimately show ?thesis using h f by simp
qed

section \<open>Cache parameters\<close>

text \<open>
  Claim C8, as stated: for every configuration string, a token that is at least 0 sets
  its parameter, and a token that is absent yields that parameter's default. It does
  not: when fewer than three integers can be scanned, \<^verbatim>\<open>updateCacheParamsFromString\<close>
  logs an error and returns without changing any parameter. The engine \<open>ex_configured\<close>
  got \<^verbatim>\<open>100/200/5\<close> from the system property and then \<^verbatim>\<open>300/400\<close> as its
  \<^verbatim>\<open>cacheConfig\<close>: the low-water mark is still 100 KiB, not 300 KiB, and the keep-alive
  period is still 5 s, not the default.
\<close>

theorem absent_token_counterexample:
  "mLowwaterThresholdBytes ex_configured = 100 * 1024
   \<and> mLowwaterThresholdBytes ex_configured \<noteq> 300 * 1024
   \<and> mKeepAliveIntervalUs ex_configured = 5 * 1000000
   \<and> mKeepAliveIntervalUs ex_configured \<noteq> kDefaultKeepAliveIntervalUs"
  by (simp add: ex_configured_def NuCachedSource2_new_def updateCacheParamsFromSystemProperty_def
      updateCacheParamsFromString_def sscanf_examples Let_def kDefaultKeepAliveIntervalUs_def
      word_sle_eq)

text \<open>
  Claim C8, amended. A configuration string is scanned for three integers
  \<^verbatim>\<open>lo/hi/keepalive\<close>.

  \<^item> If fewer than three are found, no parameter changes (so for a string with only two
    tokens).

  \<^item> If three are found, with the values \<open>lo\<close>, \<open>hi\<close> and \<open>keepalive\<close> that the scan
    stored: a value that is at least 0 sets its parameter (the low-water mark to
    \<open>lo * 1024\<close> and the high-water mark to \<open>hi * 1024\<close>, both modulo \<open>2^64\<close>, the
    keep-alive period to \<open>keepalive * 1000000\<close> microseconds), a negative value yields
    that parameter's default, and if the resulting low-water mark is not below the
    high-water mark both revert to their defaults; no other field changes.

  \<^item> For the string written from three integers in decimal, the scan stores \<open>lo\<close> and
    \<open>hi\<close> limited to the range from \<open>-2^63\<close> to \<open>2^63 - 1\<close>, and the low 32 bits of
    \<open>keepalive\<close> limited in the same way.

  \<^item> So for tokens \<open>lo\<close> and \<open>hi\<close> below \<open>2^54\<close> and a token \<open>keepalive\<close> in the range
    of a 32-bit integer, the three parameters are exactly those of the spec
    (\<open>spec_cache_params\<close>): \<open>lo * 1024\<close> and \<open>hi * 1024\<close> bytes and \<open>keepalive\<close> seconds
    for tokens that are at least 0, the defaults 2 MiB, 20 MiB and 15 s for negative
    ones, and the default watermarks when the low-water mark is not below the high-water
    mark.
\<close>

theorem updateCacheParamsFromString_spec:
  "(fst (sscanf_zd_zd_d str) \<noteq> 3 \<longrightarrow> updateCacheParamsFromString str s = s)
   \<and> (sscanf_zd_zd_d str = (3, lo, hi, keepalive) \<longrightarrow>
        (let lo_water = (if 0 \<le> sint lo then lo * 1024 else kDefaultLowWaterThreshold);
             hi_water = (if 0 \<le> sint hi then hi * 1024 else kDefaultHighWaterThreshold)
         in updateCacheParamsFromString str s
              = s\<lparr>mLowwaterThresholdBytes :=
                     (if hi_water \<le> lo_water then kDefaultLowWaterThreshold else lo_water),
                   mHighwaterThresholdBytes :=
                     (if hi_water \<le> lo_water then kDefaultHighWaterThreshold else hi_water),
                   mKeepAliveIntervalUs :=
                     (if 0 \<le> sint keepalive then scast keepalive * 1000000
                      else kDefaultKeepAliveIntervalUs)\<rparr>))
   \<and> sscanf_zd_zd_d (config_string a b c)
       = (3, word_of_int (strtol_range a), word_of_int (strtol_range b),
          word_of_int (strtol_range c))
   \<and> (a < 2 ^ 54 \<and> b < 2 ^ 54 \<and> - (2 ^ 31) \<le> c \<and> c < 2 ^ 31 \<longrightarrow>
        (uint (mLowwaterThresholdBytes (updateCacheParamsFromString (config_string a b c) s)),
         uint (mHighwaterThresholdBytes (updateCacheParamsFromString (config_string a b c) s)),
         sint (mKeepAliveIntervalUs (updateCacheParamsFromString (config_string a b c) s)))
          = spec_cache_params a b c)
   \<and> updateCacheParamsFromString (dec a @ ''/'' @ dec b) s = s"
proof (intro conjI impI)
  assume "fst (sscanf_zd_zd_d str) \<noteq> 3"
  then show "updateCacheParamsFromString str s = s"
    by (cases "sscanf_zd_zd_d str") (simp add: updateCacheParamsFromString_def)
next
  assume "sscanf_zd_zd_d str = (3, lo, hi, keepalive)"
  then show "let lo_water = (if 0 \<le> sint lo then lo * 1024 else kDefaultLowWaterThreshold);
             hi_water = (if 0 \<le> sint hi then hi * 1024 else kDefaultHighWaterThreshold)
         in updateCacheParamsFromString str s
              = s\<lparr>mLowwaterThresholdBytes :=
                     (if hi_water \<le> lo_water then kDefaultLowWaterThreshold else lo_water),
                   mHighwaterThresholdBytes :=
                     (if hi_water \<le> lo_water then kDefaultHighWaterThreshold else hi_water),
                   mKeepAliveIntervalUs :=
                     (if 0 \<le> sint keepalive then scast keepalive * 1000000
                      else kDefaultKeepAliveIntervalUs)\<rparr>"
    by (simp add: updateCacheParamsFromString_def Let_def word_sle_eq)
next
  show "sscanf_zd_zd_d (config_string a b c)
       = (3, word_of_int (strtol_range a), word_of_int (strtol_range b),
          word_of_int (strtol_range c))"
    by (simp only: sscanf_config_string store_zd_def store_d_def)
next
  assume "a < 2 ^ 54 \<and> b < 2 ^ 54 \<and> - (2 ^ 31) \<le> c \<and> c < 2 ^ 31"
  then show "(uint (mLowwaterThresholdBytes (updateCacheParamsFromString (config_string a b c) s)),
         uint (mHighwaterThresholdBytes (updateCacheParamsFromString (config_string a b c) s)),
         sint (mKeepAliveIntervalUs (updateCacheParamsFromString (config_string a b c) s)))
          = spec_cache_params a b c"
    by (simp only: update_in_range)
next
  show "updateCacheParamsFromString (dec a @ ''/'' @ dec b) s = s"
    using sscanf_two_tokens [of a b] by (simp add: updateCacheParamsFromString_def)
qed

theorem updateCacheParamsFromString_spec_witness:
  "fst (sscanf_zd_zd_d ''300/400'') \<noteq> 3
   \<and> updateCacheParamsFromString ''300/400'' ex_new = ex_new
   \<and> sscanf_zd_zd_d ''100/200/5'' = (3, 100, 200, 5)
   \<and> updateCacheParamsFromString ''100/200/5'' ex_new
       = ex_new\<lparr>mLowwaterThresholdBytes := 102400, mHighwaterThresholdBytes := 204800,
                 mKeepAliveIntervalUs := 5000000\<rparr>
   \<and> sscanf_zd_zd_d ''500/400/-1'' = (3, 500, 400, - 1)
   \<and> updateCacheParamsFromString ''500/400/-1'' ex_new = ex_new
   \<and> sscanf_zd_zd_d ''18446744073709551617/200/5'' = (3, 9223372036854775807, 200, 5)
   \<and> updateCacheParamsFromString ''18446744073709551617/200/5'' ex_new
       = ex_new\<lparr>mKeepAliveIntervalUs := 5000000\<rparr>
   \<and> sscanf_zd_zd_d ''100/200/99999999999999999999'' = (3, 100, 200, - 1)
   \<and> updateCacheParamsFromString ''100/200/99999999999999999999'' ex_new
       = ex_new\<lparr>mLowwaterThresholdBytes := 102400, mHighwaterThresholdBytes := 204800\<rparr>
   \<and> sscanf_zd_zd_d ''18014398509481984/200/5'' = (3, 18014398509481984, 200, 5)
   \<and> updateCacheParamsFromString ''18014398509481984/200/5'' ex_new
       = ex_new\<lparr>mLowwaterThresholdBytes := 0, mHighwaterThresholdBytes := 204800,
                 mKeepAliveIntervalUs := 5000000\<rparr>
   \<and> (100 :: int) < 2 ^ 54 \<and> (200 :: int) < 2 ^ 54 \<and> - (2 ^ 31) \<le> (5 :: int)
   \<and> (5 :: int) < 2 ^ 31
   \<and> config_string 100 200 5 = ''100/200/5''
   \<and> spec_cache_params 100 200 5 = (102400, 204800, 5000000)
   \<and> (uint (mLowwaterThresholdBytes (updateCacheParamsFromString ''100/200/5'' ex_new)),
       uint (mHighwaterThresholdBytes (updateCacheParamsFromString ''100/200/5'' ex_new)),
       sint (mKeepAliveIntervalUs (updateCacheParamsFromString ''100/200/5'' ex_new)))
        = (102400, 204800, 5000000)"
proof -
  note th = updateCacheParamsFromString_spec [where s = ex_new and a = 100 and b = 200 and c = 5]
  note new = ex_new_def NuCachedSource2_new_def updateCacheParamsFromSystemProperty_def
  have cs: "config_string 100 200 5 = ''100/200/5''"
    by code_simp
  have sp: "spec_cache_params 100 200 5 = (102400, 204800, 5000000)"
    by (simp add: spec_cache_params_def)
  have "updateCacheParamsFromString ''300/400'' ex_new = ex_new"
    using th [of "''300/400''"] by (simp add: sscanf_examples)
  moreover have "updateCacheParamsFromString ''100/200/5'' ex_new
       = ex_new\<lparr>mLowwaterThresholdBytes := 102400, mHighwaterThresholdBytes := 204800,
                 mKeepAliveIntervalUs := 5000000\<rparr>"
    using th [of "''100/200/5''" 100 200 5] by (simp add: sscanf_examples)
  moreover have "updateCacheParamsFromString ''500/400/-1'' ex_new = ex_new"
    using th [of "''500/400/-1''" 500 400 "- 1"] by (simp add: sscanf_examples new)
  moreover have "updateCacheParamsFromString ''18446744073709551617/200/5'' ex_new
       = ex_new\<lparr>mKeepAliveIntervalUs := 5000000\<rparr>"
    using th [of "''18446744073709551617/200/5''" 9223372036854775807 200 5]
    by (simp add: sscanf_out_of_range new word_le_def)
  moreover have "updateCacheParamsFromString ''100/200/99999999999999999999'' ex_new
       = ex_new\<lparr>mLowwaterThresholdBytes := 102400, mHighwaterThresholdBytes := 204800\<rparr>"
    using th [of "''100/200/99999999999999999999''" 100 200 "- 1"]
    by (simp add: sscanf_out_of_range new word_le_def)
  moreover have "updateCacheParamsFromString ''18014398509481984/200/5'' ex_new
       = ex_new\<lparr>mLowwaterThresholdBytes := 0, mHighwaterThresholdBytes := 204800,
                 mKeepAliveIntervalUs := 5000000\<rparr>"
    using th [of "''18014398509481984/200/5''" 18014398509481984 200 5]
    by (simp add: sscanf_out_of_range new word_le_def)
  moreover have "(uint (mLowwaterThresholdBytes (updateCacheParamsFromString ''100/200/5'' ex_new)),
       uint (mHighwaterThresholdBytes (updateCacheParamsFromString ''100/200/5'' ex_new)),
       sint (mKeepAliveIntervalUs (updateCacheParamsFromString ''100/200/5'' ex_new)))
        = (102400, 204800, 5000000)"
    using th [of "[]"] by (simp add: cs sp)
  ultimately show ?thesis by (simp add: sscanf_examples sscanf_out_of_range cs sp)
qed

section \<open>Results of readInternal\<close>



section \<open>The high-water mark\<close>

text \<open>
  Claim C1, as stated: the total size of the cache never exceeds the high-water mark by
  more than a page, whatever sequence of FETCH activations runs, keep-alive activations
  included. It does not hold: a keep-alive activation calls \<^verbatim>\<open>fetchInternal\<close> while
  \<open>mFetching\<close> is false, and the high-water test after the fetch is guarded by
  \<open>mFetching\<close>, so each keep-alive appends its page. With a high-water mark of 64 KiB
  and a keep-alive period of one second, the first activation fills the cache to the
  mark, and the two keep-alive activations one and two seconds later bring the total
  size to three pages, above the mark plus a page.
\<close>

theorem keep_alive_over_high_water_counterexample:
  "run_onFetch [(ex_full_source, 0, 0), (ex_full_source, 1000000, 1000000),
                (ex_full_source, 2000000, 2000000)] ex_small
     = Inr (ex_small\<lparr>mCache := \<lparr>mPageSize = kPageSize, mTotalSize = 196608,
                                  mActivePages = [ex_full_page, ex_full_page, ex_full_page],
                                  mFreePages = []\<rparr>,
                      mFetching := False, mLastFetchTimeUs := 2000000\<rparr>)
   \<and> mHighwaterThresholdBytes ex_small + kPageSize = 131072
   \<and> (131072 :: size_t) < 196608"
  by (simp add: fetch_eval)

text \<open>
  Claim C1, amended. Take any sequence of FETCH activations run while the prefetcher is
  filling (up to the first activation that finds \<open>mFetching\<close> false), started with
  \<open>mFetching\<close> true, the total size below the high-water mark and a non-negative retry
  counter, against upstreams that return at most \<open>kPageSize\<close> bytes per read. Every
  activation returns, the high-water mark is unchanged, the total size stays below the
  mark plus \<open>kPageSize\<close>, and it is below the mark whenever \<open>mFetching\<close> is still true.
  Keep-alive activations, which run while \<open>mFetching\<close> is false, are not covered: each of
  them appends a page whatever the total size is.
\<close>

theorem fill_run_high_water_bound:
  assumes fetching: "mFetching s"
    and below: "totalSize (mCache s) < mHighwaterThresholdBytes s"
    and nonneg: "0 \<le> sint (mNumRetriesLeft s)"
    and hon: "\<forall>a \<in> set acts. honours_page_size (fst a)"
  shows "\<exists>s'. fill_run acts s = Inr s'
           \<and> unat (totalSize (mCache s')) < unat (mHighwaterThresholdBytes s) + unat kPageSize
           \<and> mHighwaterThresholdBytes s' = mHighwaterThresholdBytes s
           \<and> (mFetching s' \<longrightarrow> totalSize (mCache s') < mHighwaterThresholdBytes s)"
proof -
  from below have "unat (totalSize (mCache s)) < unat (mHighwaterThresholdBytes s)"
    by (simp add: word_less_nat_alt)
  then have "fill_inv s" using below nonneg by (simp add: fill_inv_def word_sle_eq)
  from fill_run_inv [OF this hon] obtain s' where
    "fill_run acts s = Inr s'" "fill_inv s'"
    "mHighwaterThresholdBytes s' = mHighwaterThresholdBytes s"
    by blast
  then show ?thesis by (auto simp: fill_inv_def)
qed

theorem fill_run_high_water_bound_witness:
  "mFetching ex_new \<and> totalSize (mCache ex_new) < mHighwaterThresholdBytes ex_new
   \<and> 0 \<le> sint (mNumRetriesLeft ex_new)
   \<and> honours_page_size ex_http_source
   \<and> fill_run [(ex_http_source, 0, 0), (ex_http_source, 1, 1), (ex_http_source, 2, 2)] ex_new
     = Inr (ex_new\<lparr>mCache := \<lparr>mPageSize = kPageSize, mTotalSize = 12,
                                mActivePages = [ex_page [9, 9, 9, 9], ex_page [9, 9, 9, 9],
                                                ex_page [9, 9, 9, 9]],
                                mFreePages = []\<rparr>,
                    mLastFetchTimeUs := 2\<rparr>)
   \<and> (12 :: nat) < unat (mHighwaterThresholdBytes ex_new) + unat kPageSize"
proof -
  have h: "mFetching ex_new" "totalSize (mCache ex_new) < mHighwaterThresholdBytes ex_new"
    "0 \<le> sint (mNumRetriesLeft ex_new)"
    by (simp_all add: ex_new_def NuCachedSource2_new_def updateCacheParamsFromSystemProperty_def
        PageCache_new_def totalSize_def kDefaultHighWaterThreshold_def kMaxNumRetries_def
        word_less_def)
  have hon: "honours_page_size ex_http_source"
    by (simp add: honours_page_size_def ex_http_source_def kPageSize_def word_sle_eq)
  then have hons: "\<forall>a \<in> set [(ex_http_source, 0 :: int64_t, 0 :: int64_t),
                      (ex_http_source, 1, 1), (ex_http_source, 2, 2)]. honours_page_size (fst a)"
    by simp
  from fill_run_high_water_bound [OF h hons] obtain s' where
    r: "fill_run [(ex_http_source, 0, 0), (ex_http_source, 1, 1), (ex_http_source, 2, 2)] ex_new
          = Inr s'"
    and b: "unat (totalSize (mCache s')) < unat (mHighwaterThresholdBytes ex_new) + unat kPageSize"
    by blast
  from r ex_fill_three have "s' = ex_new\<lparr>mCache := \<lparr>mPageSize = kPageSize, mTotalSize = 12,
                                mActivePages = [ex_page [9, 9, 9, 9], ex_page [9, 9, 9, 9],
                                                ex_page [9, 9, 9, 9]],
                                mFreePages = []\<rparr>,
                    mLastFetchTimeUs := 2\<rparr>"
    by simp
  with b have "(12 :: nat) < unat (mHighwaterThresholdBytes ex_new) + unat kPageSize"
    by (simp add: totalSize_def)
  with h hon ex_fill_three show ?thesis by simp
qed

end
